theory Spec2Isabelle
  imports Complex_Main
begin

section \<open>Data model of \<open>apex/contrib/optimizers/fused_adam.py\<close>\<close>

text \<open>
  The class \<open>FusedAdam\<close> is embedded with explicit state passing. Conventions:
  \<^item> Python floats are \<open>real\<close> (rounding is not modelled), Python ints are \<open>int\<close>;
    the one-element device tensor \<open>_overflow_buf\<close> is the \<open>int\<close> it holds.
  \<^item> A parameter is an identity \<open>'p\<close>; the contents of a dense tensor are an opaque
    value \<open>'t\<close>. The attributes \<open>p.data\<close> and \<open>p.grad\<close> of the parameters are the
    fields \<open>p_data\<close> and \<open>p_grad\<close> of the machine state.
  \<^item> The extension module \<open>fused_adam_cuda\<close>, \<open>multi_tensor_applier\<close> and
    \<open>torch.zeros_like\<close> are external: they are the fields of a \<open>backend\<close> that every
    operation takes as its first argument. Every kernel invocation is also appended to
    the trace \<open>calls\<close>.
  \<^item> Every raise of the source is a value \<open>Inl (error, state at the raise)\<close>. The
    closure, the kernels and \<open>torch.zeros_like\<close> may raise: whatever they raise
    propagates out of \<open>_step\<close>.
  \<^item> The arguments \<open>grads\<close> and \<open>output_params\<close> are \<open>None\<close>, a generator or a Python
    list whose elements are \<open>None\<close>, tensors, lists, tuples or generators. A generator
    is a single-pass object: the items it has not yet yielded are kept in the field
    \<open>gens\<close> of the machine state under the identity of the generator, and every
    \<open>next\<close> removes one. Iterating a tensor yields its rows (the backend function
    \<open>tensor_rows\<close>), and raises \<open>TypeError\<close> for a 0-d tensor.
  \<^item> The method \<open>strided_check_finite\<close>, which only forwards to a kernel of the
    extension module, is not part of the step cycle and is not embedded.
\<close>

datatype error =
    RuntimeError string
  | AssertionError string
  | TypeError
  | ZeroDivisionError
  | IndexError
  | AttributeError
  | UnboundLocalError
  | KeyError
  | ImportError
  | ValueError
  | OtherError string

definition amsgrad_msg :: string where
  "amsgrad_msg = ''FusedAdam does not support the AMSGrad variant.''"

definition undo_mt_msg :: string where
  "undo_mt_msg = ''Undo feature not supported with multi_tensor mode''"

definition undo_unsupported_msg :: string where
  "undo_unsupported_msg = ''Called _step(undo=True) but undo is not supported''"

definition revert_mt_msg :: string where
  "revert_mt_msg = ''Revert step does not support multi tensor''"

definition sparse_msg :: string where
  "sparse_msg = ''FusedAdam does not support sparse gradients, please consider SparseAdam instead''"

text \<open>A tensor object: its \<open>is_sparse\<close> attribute and its contents.\<close>

datatype 't tensor = Tensor (is_sparse: bool) (tdata: 't)

text \<open>
  A dynamically typed Python value as it occurs inside \<open>grads\<close> and \<open>output_params\<close>;
  \<open>PGen i\<close> is the generator object with the identity \<open>i\<close>.
\<close>

datatype 'a pyobj = PNone | PTensor 'a | PList "'a pyobj list" | PTuple "'a pyobj list" | PGen nat

text \<open>The argument \<open>grads\<close> or \<open>output_params\<close> itself: \<open>None\<close>, a generator or a list.\<close>

datatype 'a pyarg = ANone | AGen nat | AList "'a pyobj list"

text \<open>The generators: the items each of them has still to yield.\<close>

type_synonym 'a genstore = "nat \<Rightarrow> 'a pyobj list"

text \<open>The hyperparameters of a group (the \<open>defaults\<close> dictionary) and a parameter group.\<close>

record hyper =
  lr :: real
  bias_correction :: bool
  betas :: "real \<times> real"
  eps :: real
  weight_decay :: real
  max_grad_norm :: real

record 'p param_group = hyper +
  params :: "'p list"

text \<open>
  The dictionary \<open>self.state[p]\<close> with its three keys. The empty dictionary is \<open>None\<close>
  in \<open>state\<close> below. A dictionary whose initialization was interrupted by a raise of
  \<open>torch.zeros_like\<close> is \<open>Partial\<close>: it holds \<open>'step'\<close> (which is 0) and, when the first
  allocation had succeeded, \<open>'exp_avg'\<close>.
\<close>

record 't pstate =
  state_step :: int
  state_exp_avg :: 't
  state_exp_avg_sq :: 't

datatype 't pdict = Partial "'t option" | Full "'t pstate"

text \<open>The object \<open>self._amp_stash\<close>, when the attribute exists.\<close>

record 't stash =
  stash_grads :: "'t tensor pyarg"
  stash_output_params :: "'t tensor pyarg"
  stash_scale :: real
  stash_grad_norms :: "real option list option"

text \<open>The scalar arguments shared by the three update kernels.\<close>

record scalars =
  k_lr :: real
  k_beta1 :: real
  k_beta2 :: real
  k_eps :: real
  k_combined_scale :: real
  k_step :: int
  k_eps_mode :: nat
  k_bias_correction :: nat
  k_weight_decay :: real

text \<open>
  \<open>out_p\<close> of the forward pass: a fresh empty float tensor when \<open>output_param\<close> is
  \<open>None\<close>, else \<open>output_param\<close> itself.
\<close>

datatype 't out_p = EmptyFloatTensor | Given "'t tensor pyobj"

text \<open>
  The local \<open>tensorlists\<close> of batched mode: four parallel lists (\<open>p.data\<close>, \<open>exp_avg\<close>,
  \<open>exp_avg_sq\<close>, \<open>grad\<close>; the first three are references to tensors of the named
  parameter) and a fifth list that exists only when \<open>output_params\<close> is truthy.
\<close>

record ('p, 't) tensorlists =
  tl_p :: "'p list"
  tl_exp_avg :: "'p list"
  tl_exp_avg_sq :: "'p list"
  tl_grad :: "'t tensor list"
  tl_out :: "'t tensor pyobj list option"

text \<open>One kernel invocation, with the parameter whose tensors it receives.\<close>

datatype ('p, 't) kcall =
    Adam 'p "'t out_p" "'t tensor" scalars
  | AdamUndo 'p "'t tensor" scalars
  | AdamMT "('p, 't) tensorlists" scalars

text \<open>
  The external collaborators. \<open>adam overflow p m v out_p grad sc\<close> returns what it
  raises, if it raises, and what it has written by then: the overflow register and
  the contents of \<open>p.data\<close>, \<open>exp_avg\<close>, \<open>exp_avg_sq\<close> (each is passed as input and as
  output tensor); \<open>adam_undo\<close> likewise without the register; \<open>adam_mt\<close> receives one
  row of contents per entry of the parallel lists. \<open>zeros_like\<close> allocates or raises.
  \<open>tensor_rows t\<close> is what iterating the tensor \<open>t\<close> yields, \<open>None\<close> for a 0-d tensor.
\<close>

record 't backend =
  adam :: "int \<Rightarrow> 't \<Rightarrow> 't \<Rightarrow> 't \<Rightarrow> 't out_p \<Rightarrow> 't tensor \<Rightarrow> scalars
           \<Rightarrow> error option \<times> int \<times> 't \<times> 't \<times> 't"
  adam_undo :: "'t \<Rightarrow> 't \<Rightarrow> 't \<Rightarrow> 't tensor \<Rightarrow> scalars \<Rightarrow> error option \<times> 't \<times> 't \<times> 't"
  adam_mt :: "int \<Rightarrow> ('t \<times> 't \<times> 't \<times> 't tensor) list \<Rightarrow> 't tensor pyobj list option \<Rightarrow> scalars
              \<Rightarrow> error option \<times> int \<times> ('t \<times> 't \<times> 't) list"
  zeros_like :: "'t \<Rightarrow> error + 't"
  tensor_rows :: "'t tensor \<Rightarrow> 't tensor list option"

text \<open>The optimizer instance together with the parameters it references.\<close>

record ('p, 't) optimizer =
  use_multi_tensor :: bool
  overflow_buf :: int
  amp_scale_adjustment :: real
  eps_mode :: nat
  allow_undo :: bool
  param_groups :: "'p param_group list"
  state :: "'p \<rightharpoonup> 't pdict"
  amp_stash :: "'t stash option"
  p_data :: "'p \<Rightarrow> 't"
  p_grad :: "'p \<Rightarrow> 't tensor option"
  gens :: "'t tensor genstore"
  calls :: "('p, 't) kcall list"

section \<open>Construction\<close>

text \<open>
  The environment of \<open>__init__\<close>: whether \<open>importlib.import_module("fused_adam_cuda")\<close>
  succeeds, \<open>multi_tensor_applier.available\<close>, the base class constructor
  \<open>torch.optim.Optimizer.__init__(params, defaults)\<close> (it builds the parameter groups
  or raises), the tensors of the parameters, and the generators of the caller.
\<close>

record ('a, 'p, 't) environment =
  kernel_importable :: bool
  mt_available :: bool
  optimizer_init :: "'a \<Rightarrow> hyper \<Rightarrow> error + 'p param_group list"
  env_data :: "'p \<Rightarrow> 't"
  env_grad :: "'p \<Rightarrow> 't tensor option"
  env_gens :: "'t tensor genstore"

text \<open>The keyword arguments of \<open>__init__\<close> after \<open>params\<close>, and their defaults.\<close>

record init_args =
  arg_lr :: real
  arg_bias_correction :: bool
  arg_betas :: "real \<times> real"
  arg_eps :: real
  arg_eps_inside_sqrt :: bool
  arg_weight_decay :: real
  arg_max_grad_norm :: real
  arg_amsgrad :: bool
  arg_use_mt :: bool
  arg_amp_scale_adjustment :: real
  arg_allow_undo :: bool

definition default_args :: init_args where
  "default_args =
     \<lparr>arg_lr = 1 / 1000, arg_bias_correction = True, arg_betas = (9 / 10, 999 / 1000),
      arg_eps = 1 / 100000000, arg_eps_inside_sqrt = False, arg_weight_decay = 0,
      arg_max_grad_norm = 0, arg_amsgrad = False, arg_use_mt = False,
      arg_amp_scale_adjustment = 1, arg_allow_undo = False\<rparr>"

text \<open>
  \<open>FusedAdam.__init__\<close>. The warning printed when multi tensor apply is requested but
  unavailable is not part of the state. The overflow buffer is created as \<open>[0]\<close> on
  either path (line 56 or line 70).
\<close>

definition init ::
  "('a, 'p, 't) environment \<Rightarrow> 'a \<Rightarrow> init_args \<Rightarrow> error + ('p, 't) optimizer" where
  "init env ps a =
     (if \<not> kernel_importable env then Inl ImportError
      else
        let use_multi_tensor0 = (arg_use_mt a \<and> mt_available env) in
        if arg_amsgrad a then Inl (RuntimeError amsgrad_msg)
        else
          case optimizer_init env ps
                 \<lparr>lr = arg_lr a, bias_correction = arg_bias_correction a, betas = arg_betas a,
                  eps = arg_eps a, weight_decay = arg_weight_decay a,
                  max_grad_norm = arg_max_grad_norm a\<rparr> of
            Inl e \<Rightarrow> Inl e
          | Inr groups \<Rightarrow>
              if use_multi_tensor0 \<and> arg_allow_undo a then Inl (AssertionError undo_mt_msg)
              else Inr \<lparr>use_multi_tensor = use_multi_tensor0,
                        overflow_buf = 0,
                        amp_scale_adjustment = arg_amp_scale_adjustment a,
                        eps_mode = (if arg_eps_inside_sqrt a then 0 else 1),
                        allow_undo = arg_allow_undo a,
                        param_groups = groups,
                        state = Map.empty,
                        amp_stash = None,
                        p_data = env_data env,
                        p_grad = env_grad env,
                        gens = env_gens env,
                        calls = []\<rparr>)"

section \<open>Overflow accessors\<close>

text \<open>The property \<open>has_overflow\<close>: returns the register and clears it.\<close>

definition has_overflow :: "('p, 't) optimizer \<Rightarrow> int \<times> ('p, 't) optimizer" where
  "has_overflow w = (overflow_buf w, w\<lparr>overflow_buf := 0\<rparr>)"

text \<open>The property \<open>peek_overflow\<close>: returns the register.\<close>

definition peek_overflow :: "('p, 't) optimizer \<Rightarrow> int \<times> ('p, 't) optimizer" where
  "peek_overflow w = (overflow_buf w, w)"

text \<open>Python truthiness of the integer an accessor returns.\<close>

definition truthy :: "int \<Rightarrow> bool" where
  "truthy v = (v \<noteq> 0)"

section \<open>The combined scale of a group (lines 149 to 155)\<close>

text \<open>
  \<open>grad_norm\<close> is \<open>None\<close> when no norms were supplied: dividing it raises \<open>TypeError\<close>;
  a float division by a zero \<open>scale\<close> raises \<open>ZeroDivisionError\<close>.
\<close>

definition combined_scale :: "real \<Rightarrow> real \<Rightarrow> real option \<Rightarrow> error + real" where
  "combined_scale max_norm scale grad_norm =
     (if max_norm > 0 then
        (case grad_norm of
           None \<Rightarrow> Inl TypeError
         | Some gn \<Rightarrow>
             if scale = 0 then Inl ZeroDivisionError
             else
               let clip = ((gn / scale) + 1 / 1000000) / max_norm in
               if clip > 1 then Inr (clip * scale) else Inr scale)
      else Inr scale)"

section \<open>The traversal of \<open>_step\<close>\<close>

text \<open>
  Lines 167 to 170: the gradient used for a parameter is the supplied one, or
  \<open>p.grad.data\<close> when none is supplied; \<open>PNone\<close> when both are absent (the parameter
  is skipped).
\<close>

fun effective_grad :: "'t tensor option \<Rightarrow> 't tensor pyobj \<Rightarrow> 't tensor pyobj" where
  "effective_grad None PNone = PNone"
| "effective_grad (Some g) PNone = PTensor g"
| "effective_grad pg (PTensor g) = PTensor g"
| "effective_grad pg (PList xs) = PList xs"
| "effective_grad pg (PTuple xs) = PTuple xs"
| "effective_grad pg (PGen i) = PGen i"

text \<open>
  Lines 174 to 184: \<open>state = self.state[p]\<close>, the initialization of an empty
  dictionary, and the two lookups of line 184. A raise of \<open>torch.zeros_like\<close> leaves
  the dictionary partly filled; a partly filled dictionary is not empty, so it is
  not initialized again and the lookup of the missing key raises \<open>KeyError\<close>.
\<close>

definition get_state ::
  "'t backend \<Rightarrow> ('p, 't) optimizer \<Rightarrow> 'p \<Rightarrow> (error \<times> ('p, 't) optimizer) + 't pstate" where
  "get_state K w p =
     (case state w p of
        Some (Full st) \<Rightarrow> Inr st
      | Some (Partial m) \<Rightarrow> Inl (KeyError, w)
      | None \<Rightarrow>
          (case zeros_like K (p_data w p) of
             Inl err \<Rightarrow> Inl (err, w\<lparr>state := (state w)(p \<mapsto> Partial None)\<rparr>)
           | Inr m \<Rightarrow>
               (case zeros_like K (p_data w p) of
                  Inl err \<Rightarrow> Inl (err, w\<lparr>state := (state w)(p \<mapsto> Partial (Some m))\<rparr>)
                | Inr v \<Rightarrow> Inr \<lparr>state_step = 0, state_exp_avg = m, state_exp_avg_sq = v\<rparr>)))"

text \<open>Lines 197 to 202: \<open>pl\<close> is appended to \<open>tensorlists\<close> through \<open>zip\<close>.\<close>

definition tl_append ::
  "'p \<Rightarrow> 't tensor \<Rightarrow> 't tensor pyobj \<Rightarrow> ('p, 't) tensorlists \<Rightarrow> ('p, 't) tensorlists" where
  "tl_append p g output_param tls =
     \<lparr>tl_p = tl_p tls @ [p],
      tl_exp_avg = tl_exp_avg tls @ [p],
      tl_exp_avg_sq = tl_exp_avg_sq tls @ [p],
      tl_grad = tl_grad tls @ [g],
      tl_out = (case tl_out tls of
                  None \<Rightarrow> None
                | Some os \<Rightarrow> Some (if output_param \<noteq> PNone then os @ [output_param] else os))\<rparr>"

text \<open>
  The locals \<open>state\<close>, \<open>beta1\<close> and \<open>beta2\<close> of \<open>_step\<close> are bound inside the parameter
  loop and read after it (lines 248 to 252): \<open>None\<close> while they are unbound, else the
  parameter whose state dictionary \<open>state\<close> refers to, and the two betas.
\<close>

type_synonym 'p locals = "('p \<times> real \<times> real) option"

type_synonym ('p, 't) loop_state = "('p, 't) optimizer \<times> ('p, 't) tensorlists \<times> 'p locals"

text \<open>Lines 187 to 192: the step counter of the state, and the local \<open>step\<close>.\<close>

definition bump_step :: "bool \<Rightarrow> 't pstate \<Rightarrow> 't pstate" where
  "bump_step undo st =
     (if undo then st\<lparr>state_step := state_step st - 1\<rparr>
      else st\<lparr>state_step := state_step st + 1\<rparr>)"

definition step_value :: "bool \<Rightarrow> 't pstate \<Rightarrow> int" where
  "step_value undo st = (if undo then state_step st else state_step (bump_step undo st))"

definition kernel_scalars ::
  "'p param_group \<Rightarrow> real \<Rightarrow> real \<Rightarrow> real \<Rightarrow> int \<Rightarrow> nat \<Rightarrow> nat \<Rightarrow> scalars" where
  "kernel_scalars grp beta1 beta2 cs stepv mode bc =
     \<lparr>k_lr = lr grp, k_beta1 = beta1, k_beta2 = beta2, k_eps = eps grp,
      k_combined_scale = cs, k_step = stepv, k_eps_mode = mode, k_bias_correction = bc,
      k_weight_decay = weight_decay grp\<rparr>"

text \<open>
  Lines 205 to 221 and 223 to 240: one kernel invocation for the parameter \<open>p\<close>, whose
  state \<open>st\<close> already holds the new step counter. The kernel writes \<open>p.data\<close> and the
  two moment buffers in place (and, forward, the overflow register); the first
  component of the result is what the kernel raised, if it raised.
\<close>

definition undo_call ::
  "'t backend \<Rightarrow> 'p \<Rightarrow> 't pstate \<Rightarrow> 't tensor \<Rightarrow> scalars \<Rightarrow> ('p, 't) optimizer \<Rightarrow>
   error option \<times> ('p, 't) optimizer" where
  "undo_call K p st g sc w =
     (let r = adam_undo K (p_data w p) (state_exp_avg st) (state_exp_avg_sq st) g sc in
      (fst r,
       w\<lparr>p_data := (p_data w)(p := fst (snd r)),
         state := (state w)(p \<mapsto> Full (st\<lparr>state_exp_avg := fst (snd (snd r)),
                                            state_exp_avg_sq := snd (snd (snd r))\<rparr>)),
         calls := calls w @ [AdamUndo p g sc]\<rparr>))"

definition adam_call ::
  "'t backend \<Rightarrow> 'p \<Rightarrow> 't pstate \<Rightarrow> 't out_p \<Rightarrow> 't tensor \<Rightarrow> scalars \<Rightarrow>
   ('p, 't) optimizer \<Rightarrow> error option \<times> ('p, 't) optimizer" where
  "adam_call K p st out g sc w =
     (let r = adam K (overflow_buf w) (p_data w p) (state_exp_avg st) (state_exp_avg_sq st)
                out g sc in
      (fst r,
       w\<lparr>overflow_buf := fst (snd r),
         p_data := (p_data w)(p := fst (snd (snd r))),
         state := (state w)(p \<mapsto> Full (st\<lparr>state_exp_avg := fst (snd (snd (snd r))),
                                            state_exp_avg_sq := snd (snd (snd (snd r)))\<rparr>)),
         calls := calls w @ [Adam p out g sc]\<rparr>))"

text \<open>The invocation returned, or it raised.\<close>

definition kernel_result ::
  "error option \<times> ('p, 't) optimizer \<Rightarrow> ('p, 't) tensorlists \<Rightarrow> 'p locals \<Rightarrow>
   (error \<times> ('p, 't) optimizer) + ('p, 't) loop_state" where
  "kernel_result r tls loc =
     (case fst r of None \<Rightarrow> Inr (snd r, tls, loc) | Some err \<Rightarrow> Inl (err, snd r))"

text \<open>
  Lines 185 to 240 for a parameter with the dense gradient \<open>g\<close> whose state dictionary
  is \<open>st0\<close>. In the reverse pass \<open>out_p\<close> is never bound, so appending it (line 199)
  raises \<open>UnboundLocalError\<close>.
\<close>

definition param_kernel ::
  "'t backend \<Rightarrow> bool \<Rightarrow> 'p param_group \<Rightarrow> real \<Rightarrow> nat \<Rightarrow> 'p \<Rightarrow> 't tensor \<Rightarrow>
   't tensor pyobj \<Rightarrow> 't pstate \<Rightarrow> ('p, 't) loop_state \<Rightarrow>
   (error \<times> ('p, 't) optimizer) + ('p, 't) loop_state" where
  "param_kernel K undo grp cs bc p g output_param st0 s =
     (let w = fst s; tls = fst (snd s);
          st = bump_step undo st0;
          w1 = w\<lparr>state := (state w)(p \<mapsto> Full st)\<rparr>;
          loc1 = Some (p, fst (betas grp), snd (betas grp));
          sc = kernel_scalars grp (fst (betas grp)) (snd (betas grp)) cs
                 (step_value undo st0) (eps_mode w) bc
      in
        if use_multi_tensor w then
          (if undo \<and> output_param \<noteq> PNone then Inl (UnboundLocalError, w1)
           else Inr (w1, tl_append p g output_param tls, loc1))
        else if undo then kernel_result (undo_call K p st g sc w1) tls loc1
        else kernel_result
               (adam_call K p st
                  (if output_param = PNone then EmptyFloatTensor else Given output_param)
                  g sc w1) tls loc1)"

text \<open>Lines 174 to 240 for a parameter with the dense gradient \<open>g\<close>.\<close>

definition param_update ::
  "'t backend \<Rightarrow> bool \<Rightarrow> 'p param_group \<Rightarrow> real \<Rightarrow> nat \<Rightarrow> 'p \<Rightarrow> 't tensor \<Rightarrow>
   't tensor pyobj \<Rightarrow> ('p, 't) loop_state \<Rightarrow>
   (error \<times> ('p, 't) optimizer) + ('p, 't) loop_state" where
  "param_update K undo grp cs bc p g output_param s =
     (case get_state K (fst s) p of
        Inl x \<Rightarrow> Inl x
      | Inr st0 \<Rightarrow> param_kernel K undo grp cs bc p g output_param st0 s)"

text \<open>
  The body of the parameter loop, lines 166 to 240. A supplied gradient that is a
  list, a tuple or a generator has no attribute \<open>is_sparse\<close>.
\<close>

definition param_body ::
  "'t backend \<Rightarrow> bool \<Rightarrow> 'p param_group \<Rightarrow> real \<Rightarrow> nat \<Rightarrow>
   'p \<times> 't tensor pyobj \<times> 't tensor pyobj \<Rightarrow> ('p, 't) loop_state \<Rightarrow>
   (error \<times> ('p, 't) optimizer) + ('p, 't) loop_state" where
  "param_body K undo grp cs bc e s =
     (case e of (p, grad, output_param) \<Rightarrow>
        (case effective_grad (p_grad (fst s) p) grad of
           PNone \<Rightarrow> Inr s
         | PTensor g \<Rightarrow>
             if is_sparse g then Inl (RuntimeError sparse_msg, fst s)
             else param_update K undo grp cs bc p g output_param s
         | PList xs \<Rightarrow> Inl (AttributeError, fst s)
         | PTuple xs \<Rightarrow> Inl (AttributeError, fst s)
         | PGen i \<Rightarrow> Inl (AttributeError, fst s)))"

text \<open>
  What \<open>zip\<close> holds for one of its arguments: the iterator of a list, a tuple or the
  rows of a tensor (the items it has still to yield), or the generator itself.
  \<open>None\<close> is not iterable, nor is a 0-d tensor.
\<close>

datatype 'a iter = ListIter "'a pyobj list" | GenIter nat

fun iter_of :: "'t backend \<Rightarrow> 't tensor pyobj \<Rightarrow> error + 't tensor iter" where
  "iter_of K (PList xs) = Inr (ListIter xs)"
| "iter_of K (PTuple xs) = Inr (ListIter xs)"
| "iter_of K (PGen i) = Inr (GenIter i)"
| "iter_of K (PTensor t) =
     (case tensor_rows K t of
        None \<Rightarrow> Inl TypeError
      | Some rs \<Rightarrow> Inr (ListIter (map PTensor rs)))"
| "iter_of K PNone = Inl TypeError"

text \<open>\<open>next\<close> on an iterator: the item, the iterator and the generators afterwards.\<close>

fun pull :: "'a iter \<Rightarrow> 'a genstore \<Rightarrow> ('a pyobj \<times> 'a iter \<times> 'a genstore) option" where
  "pull (ListIter []) G = None"
| "pull (ListIter (x # xs)) G = Some (x, ListIter xs, G)"
| "pull (GenIter i) G =
     (case G i of
        [] \<Rightarrow> None
      | x # xs \<Rightarrow> Some (x, GenIter i, G(i := xs)))"

text \<open>
  The parameter loop of line 165. \<open>zip\<close> asks its arguments in order for the next
  item and stops at the first that is exhausted; an item already taken from a
  generator is lost.
\<close>

fun params_loop ::
  "'t backend \<Rightarrow> bool \<Rightarrow> 'p param_group \<Rightarrow> real \<Rightarrow> nat \<Rightarrow> 'p list \<Rightarrow>
   't tensor iter \<Rightarrow> 't tensor iter \<Rightarrow> ('p, 't) loop_state \<Rightarrow>
   (error \<times> ('p, 't) optimizer) + ('p, 't) loop_state" where
  "params_loop K undo grp cs bc [] git oit s = Inr s"
| "params_loop K undo grp cs bc (p # ps) git oit s =
     (case pull git (gens (fst s)) of
        None \<Rightarrow> Inr s
      | Some (grad, git1, G1) \<Rightarrow>
          (case pull oit G1 of
             None \<Rightarrow> Inr ((fst s)\<lparr>gens := G1\<rparr>, snd s)
           | Some (output_param, oit1, G2) \<Rightarrow>
               (case param_body K undo grp cs bc (p, grad, output_param)
                       ((fst s)\<lparr>gens := G2\<rparr>, snd s) of
                  Inl x \<Rightarrow> Inl x
                | Inr s1 \<Rightarrow> params_loop K undo grp cs bc ps git1 oit1 s1)))"

text \<open>Lines 144 to 147: an absent per-group entry becomes one \<open>None\<close> per parameter.\<close>

definition fill_none :: "'p param_group \<Rightarrow> 'a pyobj \<Rightarrow> 'a pyobj" where
  "fill_none grp entry =
     (if entry = PNone then PList (replicate (length (params grp)) PNone) else entry)"

text \<open>
  Lines 159 to 163: the truthiness of the argument \<open>output_params\<close>; a generator
  object is true.
\<close>

fun arg_true :: "'a pyarg \<Rightarrow> bool" where
  "arg_true ANone = False"
| "arg_true (AGen i) = True"
| "arg_true (AList xs) = (xs \<noteq> [])"

definition new_tensorlists :: "'a pyarg \<Rightarrow> ('p, 't) tensorlists" where
  "new_tensorlists output_params =
     \<lparr>tl_p = [], tl_exp_avg = [], tl_exp_avg_sq = [], tl_grad = [],
      tl_out = (if arg_true output_params then Some [] else None)\<rparr>"

text \<open>
  Lines 242 to 255: the batched invocation. The rows are read through the references
  in the three parallel lists, and the results are written back through them. A
  parameter enters the lists after line 184 has found both moment buffers, so the
  state of every listed parameter is full; the other cases of \<open>exp_avg_of\<close> and
  \<open>exp_avg_sq_of\<close> are not reached.
\<close>

definition exp_avg_of :: "('p, 't) optimizer \<Rightarrow> 'p \<Rightarrow> 't" where
  "exp_avg_of w p =
     (case state w p of
        Some (Full st) \<Rightarrow> state_exp_avg st
      | Some (Partial (Some m)) \<Rightarrow> m
      | _ \<Rightarrow> p_data w p)"

definition exp_avg_sq_of :: "('p, 't) optimizer \<Rightarrow> 'p \<Rightarrow> 't" where
  "exp_avg_sq_of w p =
     (case state w p of
        Some (Full st) \<Rightarrow> state_exp_avg_sq st
      | _ \<Rightarrow> p_data w p)"

text \<open>\<open>state['step']\<close> of the dictionary of \<open>p\<close>; an interrupted initialization left 0.\<close>

definition dict_step :: "('p, 't) optimizer \<Rightarrow> 'p \<Rightarrow> int" where
  "dict_step w p = (case state w p of Some (Full st) \<Rightarrow> state_step st | _ \<Rightarrow> 0)"

fun write_rows ::
  "('p \<times> 'p \<times> 'p \<times> 't \<times> 't \<times> 't) list \<Rightarrow> ('p, 't) optimizer \<Rightarrow> ('p, 't) optimizer" where
  "write_rows [] w = w"
| "write_rows ((pd, pm, pv, d, m, v) # rs) w =
     write_rows rs
       (let w1 = w\<lparr>p_data := (p_data w)(pd := d)\<rparr>;
            w2 = (case state w1 pm of
                    Some (Full st) \<Rightarrow>
                      w1\<lparr>state := (state w1)(pm \<mapsto> Full (st\<lparr>state_exp_avg := m\<rparr>))\<rparr>
                  | _ \<Rightarrow> w1)
        in case state w2 pv of
             Some (Full st) \<Rightarrow>
               w2\<lparr>state := (state w2)(pv \<mapsto> Full (st\<lparr>state_exp_avg_sq := v\<rparr>))\<rparr>
           | _ \<Rightarrow> w2)"

definition mt_rows ::
  "('p, 't) optimizer \<Rightarrow> ('p, 't) tensorlists \<Rightarrow> ('t \<times> 't \<times> 't \<times> 't tensor) list" where
  "mt_rows w tls =
     zip (map (p_data w) (tl_p tls))
       (zip (map (exp_avg_of w) (tl_exp_avg tls))
          (zip (map (exp_avg_sq_of w) (tl_exp_avg_sq tls))
             (tl_grad tls)))"

definition mt_call ::
  "'t backend \<Rightarrow> 'p param_group \<Rightarrow> real \<Rightarrow> nat \<Rightarrow> ('p, 't) tensorlists \<Rightarrow> 'p locals \<Rightarrow>
   ('p, 't) optimizer \<Rightarrow> (error \<times> ('p, 't) optimizer) + ('p, 't) optimizer" where
  "mt_call K grp cs bc tls loc w =
     (case loc of
        None \<Rightarrow> Inl (UnboundLocalError, w)
      | Some (q, beta1, beta2) \<Rightarrow>
          let sc = kernel_scalars grp beta1 beta2 cs (dict_step w q) (eps_mode w) bc;
              r = adam_mt K (overflow_buf w) (mt_rows w tls) (tl_out tls) sc;
              w1 = write_rows
                     (zip (tl_p tls)
                        (zip (tl_exp_avg tls) (zip (tl_exp_avg_sq tls) (snd (snd r)))))
                     (w\<lparr>overflow_buf := fst (snd r), calls := calls w @ [AdamMT tls sc]\<rparr>)
          in (case fst r of None \<Rightarrow> Inr w1 | Some err \<Rightarrow> Inl (err, w1)))"

text \<open>The body of the group loop, lines 144 to 255.\<close>

definition group_body ::
  "'t backend \<Rightarrow> bool \<Rightarrow> real \<Rightarrow> 't tensor pyarg \<Rightarrow>
   'p param_group \<times> 't tensor pyobj \<times> 't tensor pyobj \<times> real option \<Rightarrow>
   ('p, 't) optimizer \<times> 'p locals \<Rightarrow>
   (error \<times> ('p, 't) optimizer) + (('p, 't) optimizer \<times> 'p locals)" where
  "group_body K undo scale output_params e s =
     (case e of (grp, grads_this_group, output_params_this_group, grad_norm) \<Rightarrow>
      case s of (w, loc) \<Rightarrow>
        (case combined_scale (max_grad_norm grp) scale grad_norm of
           Inl err \<Rightarrow> Inl (err, w)
         | Inr cs \<Rightarrow>
             let bc = (if bias_correction grp then 1 else 0);
                 tls = new_tensorlists output_params
             in
               (case iter_of K (fill_none grp grads_this_group) of
                  Inl err \<Rightarrow> Inl (err, w)
                | Inr git \<Rightarrow>
                    (case iter_of K (fill_none grp output_params_this_group) of
                       Inl err \<Rightarrow> Inl (err, w)
                     | Inr oit \<Rightarrow>
                         (case params_loop K undo grp cs bc (params grp) git oit
                                 (w, tls, loc) of
                            Inl x \<Rightarrow> Inl x
                          | Inr (w1, tls1, loc1) \<Rightarrow>
                              (if use_multi_tensor w1 then
                                 (case mt_call K grp cs bc tls1 loc1 w1 of
                                    Inl x \<Rightarrow> Inl x
                                  | Inr w2 \<Rightarrow> Inr (w2, loc1))
                               else Inr (w1, loc1)))))))"

text \<open>The group loop of line 143 over the zipped quadruples.\<close>

fun groups_loop ::
  "'t backend \<Rightarrow> bool \<Rightarrow> real \<Rightarrow> 't tensor pyarg \<Rightarrow>
   ('p param_group \<times> 't tensor pyobj \<times> 't tensor pyobj \<times> real option) list \<Rightarrow>
   ('p, 't) optimizer \<times> 'p locals \<Rightarrow>
   (error \<times> ('p, 't) optimizer) + (('p, 't) optimizer \<times> 'p locals)" where
  "groups_loop K undo scale output_params [] s = Inr s"
| "groups_loop K undo scale output_params (e # es) s =
     (case group_body K undo scale output_params e s of
        Inl x \<Rightarrow> Inl x
      | Inr s1 \<Rightarrow> groups_loop K undo scale output_params es s1)"

section \<open>Input normalization (lines 120 to 141)\<close>

text \<open>
  A generator is one group (lines 124 and 133). Otherwise \<open>type(x) != list\<close> on the
  first element decides between one flat list and a list of per-group lists;
  \<open>grads[0]\<close> on an empty list raises \<open>IndexError\<close>.
\<close>

fun is_list :: "'a pyobj \<Rightarrow> bool" where
  "is_list (PList xs) = True"
| "is_list x = False"

fun normalize_input :: "nat \<Rightarrow> 'a pyarg \<Rightarrow> error + 'a pyobj list" where
  "normalize_input n ANone = Inr (replicate n PNone)"
| "normalize_input n (AGen i) = Inr [PGen i]"
| "normalize_input n (AList []) = Inl IndexError"
| "normalize_input n (AList (x # xs)) = (if \<not> is_list x then Inr [PList (x # xs)] else Inr (x # xs))"

definition normalize_norms :: "nat \<Rightarrow> real option list option \<Rightarrow> real option list" where
  "normalize_norms n grad_norms = (case grad_norms of None \<Rightarrow> replicate n None | Some ns \<Rightarrow> ns)"

section \<open>The operations \<open>_step\<close> and \<open>step\<close>\<close>

text \<open>
  The closure re-evaluates the model: it returns the loss or raises, and may assign
  the gradients \<open>p.grad\<close> before either.
\<close>

type_synonym ('p, 't, 'l) closure =
  "(('p \<Rightarrow> 't tensor option) \<Rightarrow> (error + 'l) \<times> ('p \<Rightarrow> 't tensor option)) option"

text \<open>Lines 106 to 112.\<close>

definition prologue ::
  "('p, 't) optimizer \<Rightarrow> ('p, 't, 'l) closure \<Rightarrow> bool \<Rightarrow>
   (error \<times> ('p, 't) optimizer) + ('l option \<times> ('p, 't) optimizer)" where
  "prologue w closure undo =
     (if undo then
        (if \<not> allow_undo w then Inl (AssertionError undo_unsupported_msg, w)
         else if use_multi_tensor w then Inl (AssertionError revert_mt_msg, w)
         else Inr (None, w))
      else
        (case closure of
           None \<Rightarrow> Inr (None, w)
         | Some c \<Rightarrow>
             (case fst (c (p_grad w)) of
                Inl err \<Rightarrow> Inl (err, w\<lparr>p_grad := snd (c (p_grad w))\<rparr>)
              | Inr l \<Rightarrow> Inr (Some l, w\<lparr>p_grad := snd (c (p_grad w))\<rparr>))))"

text \<open>Lines 114 to 118: the values of the stash replace the arguments.\<close>

definition stash_override ::
  "('p, 't) optimizer \<Rightarrow>
   't tensor pyarg \<times> 't tensor pyarg \<times> real \<times> real option list option \<Rightarrow>
   't tensor pyarg \<times> 't tensor pyarg \<times> real \<times> real option list option" where
  "stash_override w a =
     (case amp_stash w of
        None \<Rightarrow> a
      | Some s \<Rightarrow> (stash_grads s, stash_output_params s,
                   stash_scale s * amp_scale_adjustment w, stash_grad_norms s))"

text \<open>Lines 120 to 255, after the stash: normalization and the group loop.\<close>

definition traverse ::
  "'t backend \<Rightarrow> bool \<Rightarrow> ('p, 't) optimizer \<Rightarrow>
   't tensor pyarg \<times> 't tensor pyarg \<times> real \<times> real option list option \<Rightarrow>
   (error \<times> ('p, 't) optimizer) + (('p, 't) optimizer \<times> 'p locals)" where
  "traverse K undo w a =
     (case a of (grads, output_params, scale, grad_norms) \<Rightarrow>
        (case normalize_input (length (param_groups w)) grads of
           Inl err \<Rightarrow> Inl (err, w)
         | Inr grads_group \<Rightarrow>
             (case normalize_input (length (param_groups w)) output_params of
                Inl err \<Rightarrow> Inl (err, w)
              | Inr output_params_group \<Rightarrow>
                  groups_loop K undo scale output_params
                    (zip (param_groups w)
                       (zip grads_group
                          (zip output_params_group
                             (normalize_norms (length (param_groups w)) grad_norms))))
                    (w, None))))"

text \<open>The method \<open>_step\<close>; it returns \<open>None if undo else loss\<close>.\<close>

definition step_internal ::
  "'t backend \<Rightarrow> ('p, 't) optimizer \<Rightarrow> ('p, 't, 'l) closure \<Rightarrow>
   't tensor pyarg \<Rightarrow> 't tensor pyarg \<Rightarrow> real \<Rightarrow>
   real option list option \<Rightarrow> bool \<Rightarrow>
   (error \<times> ('p, 't) optimizer) + ('l option \<times> ('p, 't) optimizer)" where
  "step_internal K w closure grads output_params scale grad_norms undo =
     (case prologue w closure undo of
        Inl x \<Rightarrow> Inl x
      | Inr (loss, w1) \<Rightarrow>
          (case traverse K undo w1
                  (stash_override w1 (grads, output_params, scale, grad_norms)) of
             Inl x \<Rightarrow> Inl x
           | Inr (w2, loc) \<Rightarrow> Inr (if undo then None else loss, w2)))"

text \<open>The public method \<open>step\<close>, lines 274 to 278; it has no \<open>return\<close> statement.\<close>

definition step ::
  "'t backend \<Rightarrow> ('p, 't) optimizer \<Rightarrow> ('p, 't, 'l) closure \<Rightarrow>
   't tensor pyarg \<Rightarrow> 't tensor pyarg \<Rightarrow> real \<Rightarrow>
   real option list option \<Rightarrow>
   (error \<times> ('p, 't) optimizer) + ('l option \<times> ('p, 't) optimizer)" where
  "step K w closure grads output_params scale grad_norms =
     (case step_internal K (w\<lparr>overflow_buf := 0\<rparr>) closure grads output_params scale
             grad_norms False of
        Inl x \<Rightarrow> Inl x
      | Inr (loss, w1) \<Rightarrow>
          if allow_undo w1 \<and> truthy (fst (peek_overflow w1)) then
            (case step_internal K (snd (peek_overflow w1)) closure grads output_params scale
                    grad_norms True of
               Inl x \<Rightarrow> Inl x
             | Inr (r, w2) \<Rightarrow> Inr (None, w2))
          else Inr (None, w1))"

section \<open>Notions used to state the properties\<close>

text \<open>The state an outcome leaves behind, whether it is a raise or a return.\<close>

definition loop_world :: "(error \<times> ('p, 't) optimizer) + (('p, 't) optimizer \<times> 'b) \<Rightarrow> ('p, 't) optimizer" where
  "loop_world r = (case r of Inl x \<Rightarrow> snd x | Inr s \<Rightarrow> fst s)"

definition final_world :: "(error \<times> ('p, 't) optimizer) + ('b \<times> ('p, 't) optimizer) \<Rightarrow> ('p, 't) optimizer" where
  "final_world r = (case r of Inl x \<Rightarrow> snd x | Inr s \<Rightarrow> snd s)"

definition config_eq :: "('p, 't) optimizer \<Rightarrow> ('p, 't) optimizer \<Rightarrow> bool" where
  "config_eq w w' \<longleftrightarrow>
     use_multi_tensor w' = use_multi_tensor w \<and>
     amp_scale_adjustment w' = amp_scale_adjustment w \<and>
     eps_mode w' = eps_mode w \<and>
     allow_undo w' = allow_undo w \<and>
     param_groups w' = param_groups w \<and>
     amp_stash w' = amp_stash w \<and>
     p_grad w' = p_grad w"


text \<open>The configuration without the gradients, which a closure may assign.\<close>

definition flags_eq :: "('p, 't) optimizer \<Rightarrow> ('p, 't) optimizer \<Rightarrow> bool" where
  "flags_eq w w' \<longleftrightarrow>
     use_multi_tensor w' = use_multi_tensor w \<and>
     amp_scale_adjustment w' = amp_scale_adjustment w \<and>
     eps_mode w' = eps_mode w \<and>
     allow_undo w' = allow_undo w \<and>
     param_groups w' = param_groups w \<and>
     amp_stash w' = amp_stash w"

text \<open>
  A property of the overflow register that no forward kernel destroys, for example
  ``is set'' for kernels that only ever set the register.
\<close>

definition kernels_keep :: "(int \<Rightarrow> bool) \<Rightarrow> 't backend \<Rightarrow> bool" where
  "kernels_keep P K \<longleftrightarrow>
     (\<forall>ov d m v out g sc. P ov \<longrightarrow> P (fst (snd (adam K ov d m v out g sc)))) \<and>
     (\<forall>ov rows outs sc. P ov \<longrightarrow> P (fst (snd (adam_mt K ov rows outs sc))))"


text \<open>
  The step counter of a parameter; a parameter without state counts as 0, the value
  the state initialization gives it.
\<close>

definition step_of :: "('p, 't) optimizer \<Rightarrow> 'p \<Rightarrow> int" where
  "step_of w p = (case state w p of Some (Full st) \<Rightarrow> state_step st | _ \<Rightarrow> 0)"

text \<open>
  An entry \<open>(p, grad, output_param)\<close> of the parameter loop is gradient-bearing when the
  supplied or the attached gradient is present, so that the loop does not skip it; it
  is sparse when the gradient used is a sparse tensor.
\<close>

definition bearing :: "('p \<Rightarrow> 't tensor option) \<Rightarrow> 'p \<times> 't tensor pyobj \<times> 'o \<Rightarrow> bool" where
  "bearing pg e = (effective_grad (pg (fst e)) (fst (snd e)) \<noteq> PNone)"

definition sparse_entry :: "('p \<Rightarrow> 't tensor option) \<Rightarrow> 'p \<times> 't tensor pyobj \<times> 'o \<Rightarrow> bool" where
  "sparse_entry pg e =
     (case effective_grad (pg (fst e)) (fst (snd e)) of
        PTensor t \<Rightarrow> is_sparse t
      | _ \<Rightarrow> False)"

text \<open>The entries the loop iterates before it meets a sparse gradient.\<close>

definition before_sparse ::
  "('p \<Rightarrow> 't tensor option) \<Rightarrow> ('p \<times> 't tensor pyobj \<times> 'o) list \<Rightarrow>
   ('p \<times> 't tensor pyobj \<times> 'o) list" where
  "before_sparse pg es = takeWhile (\<lambda>e. \<not> sparse_entry pg e) es"

text \<open>How often the loop meets the parameter \<open>q\<close> with a gradient.\<close>

definition visits ::
  "('p \<Rightarrow> 't tensor option) \<Rightarrow> 'p \<Rightarrow> ('p \<times> 't tensor pyobj \<times> 'o) list \<Rightarrow> nat" where
  "visits pg q es = length (filter (\<lambda>e. fst e = q \<and> bearing pg e) es)"

text \<open>The parameter of the last gradient-bearing entry, if there is one.\<close>

definition last_bearing ::
  "('p \<Rightarrow> 't tensor option) \<Rightarrow> ('p \<times> 't tensor pyobj \<times> 'o) list \<Rightarrow> 'p option" where
  "last_bearing pg es =
     (case rev (filter (bearing pg) es) of [] \<Rightarrow> None | e # bs \<Rightarrow> Some (fst e))"

text \<open>
  The triples \<open>zip\<close> yields to the parameter loop from the generators \<open>G\<close>, and the
  generators once the loop has run to its end.
\<close>

fun zip_entries ::
  "'a genstore \<Rightarrow> 'p list \<Rightarrow> 'a iter \<Rightarrow> 'a iter \<Rightarrow> ('p \<times> 'a pyobj \<times> 'a pyobj) list" where
  "zip_entries G [] git oit = []"
| "zip_entries G (p # ps) git oit =
     (case pull git G of
        None \<Rightarrow> []
      | Some (grad, git1, G1) \<Rightarrow>
          (case pull oit G1 of
             None \<Rightarrow> []
           | Some (output_param, oit1, G2) \<Rightarrow>
               (p, grad, output_param) # zip_entries G2 ps git1 oit1))"

fun zip_store :: "'a genstore \<Rightarrow> 'p list \<Rightarrow> 'a iter \<Rightarrow> 'a iter \<Rightarrow> 'a genstore" where
  "zip_store G [] git oit = G"
| "zip_store G (p # ps) git oit =
     (case pull git G of
        None \<Rightarrow> G
      | Some (grad, git1, G1) \<Rightarrow>
          (case pull oit G1 of
             None \<Rightarrow> G1
           | Some (output_param, oit1, G2) \<Rightarrow> zip_store G2 ps git1 oit1))"

text \<open>The body of the parameter loop applied to a list of triples, one after the other.\<close>

fun entries_loop ::
  "'t backend \<Rightarrow> bool \<Rightarrow> 'p param_group \<Rightarrow> real \<Rightarrow> nat \<Rightarrow>
   ('p \<times> 't tensor pyobj \<times> 't tensor pyobj) list \<Rightarrow> ('p, 't) loop_state \<Rightarrow>
   (error \<times> ('p, 't) optimizer) + ('p, 't) loop_state" where
  "entries_loop K undo grp cs bc [] s = Inr s"
| "entries_loop K undo grp cs bc (e # es) s =
     (case param_body K undo grp cs bc e s of
        Inl x \<Rightarrow> Inl x
      | Inr s1 \<Rightarrow> entries_loop K undo grp cs bc es s1)"

text \<open>An outcome whose state holds the generators \<open>G\<close>.\<close>

definition with_gens ::
  "'t tensor genstore \<Rightarrow> (error \<times> ('p, 't) optimizer) + (('p, 't) optimizer \<times> 'b) \<Rightarrow>
   (error \<times> ('p, 't) optimizer) + (('p, 't) optimizer \<times> 'b)" where
  "with_gens G r =
     (case r of
        Inl x \<Rightarrow> Inl (fst x, (snd x)\<lparr>gens := G\<rparr>)
      | Inr s \<Rightarrow> Inr ((fst s)\<lparr>gens := G\<rparr>, snd s))"

text \<open>
  The entries the parameter loop iterates for one element of the group loop (none
  when an argument of \<open>zip\<close> is not iterable) and the generators after that loop; the
  entries of the group loop, one group after the other; and those of the whole
  traversal (none when normalization raises).
\<close>

definition group_entries ::
  "'t backend \<Rightarrow> 't tensor genstore \<Rightarrow>
   'p param_group \<times> 't tensor pyobj \<times> 't tensor pyobj \<times> 'c \<Rightarrow>
   ('p \<times> 't tensor pyobj \<times> 't tensor pyobj) list" where
  "group_entries K G e =
     (case e of (grp, grads_this_group, output_params_this_group, grad_norm) \<Rightarrow>
        (case iter_of K (fill_none grp grads_this_group) of
           Inl err \<Rightarrow> []
         | Inr git \<Rightarrow>
             (case iter_of K (fill_none grp output_params_this_group) of
                Inl err \<Rightarrow> []
              | Inr oit \<Rightarrow> zip_entries G (params grp) git oit)))"

definition group_store ::
  "'t backend \<Rightarrow> 't tensor genstore \<Rightarrow>
   'p param_group \<times> 't tensor pyobj \<times> 't tensor pyobj \<times> 'c \<Rightarrow> 't tensor genstore" where
  "group_store K G e =
     (case e of (grp, grads_this_group, output_params_this_group, grad_norm) \<Rightarrow>
        (case iter_of K (fill_none grp grads_this_group) of
           Inl err \<Rightarrow> G
         | Inr git \<Rightarrow>
             (case iter_of K (fill_none grp output_params_this_group) of
                Inl err \<Rightarrow> G
              | Inr oit \<Rightarrow> zip_store G (params grp) git oit)))"

fun groups_entries ::
  "'t backend \<Rightarrow> 't tensor genstore \<Rightarrow>
   ('p param_group \<times> 't tensor pyobj \<times> 't tensor pyobj \<times> 'c) list \<Rightarrow>
   ('p \<times> 't tensor pyobj \<times> 't tensor pyobj) list" where
  "groups_entries K G [] = []"
| "groups_entries K G (e # es) =
     group_entries K G e @ groups_entries K (group_store K G e) es"

definition traversal ::
  "'t backend \<Rightarrow> ('p, 't) optimizer \<Rightarrow>
   't tensor pyarg \<times> 't tensor pyarg \<times> real \<times> real option list option \<Rightarrow>
   ('p \<times> 't tensor pyobj \<times> 't tensor pyobj) list" where
  "traversal K w a =
     (case a of (grads, output_params, scale, grad_norms) \<Rightarrow>
        (case normalize_input (length (param_groups w)) grads of
           Inl err \<Rightarrow> []
         | Inr grads_group \<Rightarrow>
             (case normalize_input (length (param_groups w)) output_params of
                Inl err \<Rightarrow> []
              | Inr output_params_group \<Rightarrow>
                  groups_entries K (gens w)
                    (zip (param_groups w)
                       (zip grads_group
                          (zip output_params_group
                             (normalize_norms (length (param_groups w)) grad_norms)))))))"

definition step_traversal ::
  "'t backend \<Rightarrow> ('p, 't) optimizer \<Rightarrow> 't tensor pyarg \<Rightarrow> 't tensor pyarg \<Rightarrow>
   real \<Rightarrow> real option list option \<Rightarrow> ('p \<times> 't tensor pyobj \<times> 't tensor pyobj) list" where
  "step_traversal K w grads output_params scale grad_norms =
     traversal K w (stash_override w (grads, output_params, scale, grad_norms))"

text \<open>
  Nothing stands in the way of a traversal: an object is iterable; the combined scale
  of a group is computable and both its slots are iterable; the gradient of an entry
  is absent or a tensor; no state dictionary is partly filled; the closure returns.
\<close>

definition iterable :: "'t backend \<Rightarrow> 't tensor pyobj \<Rightarrow> bool" where
  "iterable K x = (case iter_of K x of Inl err \<Rightarrow> False | Inr it \<Rightarrow> True)"


text \<open>The quadruples the group loop iterates (none when normalization raises).\<close>

definition zipped_groups ::
  "('p, 't) optimizer \<Rightarrow>
   't tensor pyarg \<times> 't tensor pyarg \<times> real \<times> real option list option \<Rightarrow>
   ('p param_group \<times> 't tensor pyobj \<times> 't tensor pyobj \<times> real option) list" where
  "zipped_groups w a =
     (case a of (grads, output_params, scale, grad_norms) \<Rightarrow>
        (case normalize_input (length (param_groups w)) grads of
           Inl err \<Rightarrow> []
         | Inr grads_group \<Rightarrow>
             (case normalize_input (length (param_groups w)) output_params of
                Inl err \<Rightarrow> []
              | Inr output_params_group \<Rightarrow>
                  zip (param_groups w)
                    (zip grads_group
                       (zip output_params_group
                          (normalize_norms (length (param_groups w)) grad_norms))))))"



definition no_partial :: "('p, 't) optimizer \<Rightarrow> bool" where
  "no_partial w \<longleftrightarrow> (\<forall>p m. state w p \<noteq> Some (Partial m))"


text \<open>
  The entries \<open>step\<close> iterates: those of its forward pass and, when the reverse pass
  runs, those of the reverse pass, which starts from the generators the forward pass
  left.
\<close>

definition step_entries ::
  "'t backend \<Rightarrow> ('p, 't) optimizer \<Rightarrow> ('p, 't, 'l) closure \<Rightarrow> 't tensor pyarg \<Rightarrow>
   't tensor pyarg \<Rightarrow> real \<Rightarrow> real option list option \<Rightarrow>
   ('p \<times> 't tensor pyobj \<times> 't tensor pyobj) list" where
  "step_entries K w closure grads output_params scale grad_norms =
     step_traversal K w grads output_params scale grad_norms @
     (case step_internal K (w\<lparr>overflow_buf := 0\<rparr>) closure grads output_params scale
             grad_norms False of
        Inl x \<Rightarrow> []
      | Inr (loss, w1) \<Rightarrow>
          if allow_undo w1 \<and> truthy (fst (peek_overflow w1))
          then step_traversal K w1 grads output_params scale grad_norms else [])"

text \<open>An argument that is no generator and holds none as an element.\<close>

fun is_gen :: "'a pyobj \<Rightarrow> bool" where
  "is_gen (PGen i) = True"
| "is_gen x = False"

fun arg_gen_free :: "'a pyarg \<Rightarrow> bool" where
  "arg_gen_free ANone = True"
| "arg_gen_free (AGen i) = False"
| "arg_gen_free (AList xs) = list_all (\<lambda>x. \<not> is_gen x) xs"

text \<open>The arguments \<open>_step\<close> works with, after the stash, hold no generator.\<close>

definition gen_free ::
  "('p, 't) optimizer \<Rightarrow> 't tensor pyarg \<Rightarrow> 't tensor pyarg \<Rightarrow> bool" where
  "gen_free w grads output_params \<longleftrightarrow>
     (case amp_stash w of
        None \<Rightarrow> arg_gen_free grads \<and> arg_gen_free output_params
      | Some s \<Rightarrow> arg_gen_free (stash_grads s) \<and> arg_gen_free (stash_output_params s))"

text \<open>A kernel invocation mentions a parameter when it receives one of its tensors.\<close>

fun mentions :: "'p \<Rightarrow> ('p, 't) kcall \<Rightarrow> bool" where
  "mentions q (Adam p out g sc) = (p = q)"
| "mentions q (AdamUndo p g sc) = (p = q)"
| "mentions q (AdamMT tls sc) =
     (q \<in> set (tl_p tls) \<or> q \<in> set (tl_exp_avg tls) \<or> q \<in> set (tl_exp_avg_sq tls))"

text \<open>The kernel invocations issued between two states.\<close>

definition issued :: "('p, 't) optimizer \<Rightarrow> ('p, 't) optimizer \<Rightarrow> ('p, 't) kcall list" where
  "issued w w' = drop (length (calls w)) (calls w')"

text \<open>
  The parameter \<open>q\<close> is untouched between two states: its state dictionary (absent or
  not, step counter, both moment buffers) and its data are the same, and the trace has
  only grown, by invocations that do not mention \<open>q\<close>.
\<close>

definition untouched :: "'p \<Rightarrow> ('p, 't) optimizer \<Rightarrow> ('p, 't) optimizer \<Rightarrow> bool" where
  "untouched q w w' \<longleftrightarrow>
     state w' q = state w q \<and> p_data w' q = p_data w q \<and>
     take (length (calls w)) (calls w') = calls w \<and>
     \<not> list_ex (mentions q) (issued w w')"

definition tl_free :: "'p \<Rightarrow> ('p, 't) tensorlists \<Rightarrow> bool" where
  "tl_free q tls \<longleftrightarrow>
     q \<notin> set (tl_p tls) \<and> q \<notin> set (tl_exp_avg tls) \<and> q \<notin> set (tl_exp_avg_sq tls)"

text \<open>
  The structure the Input Normalizer hands to the loops: per group, the entry after
  lines 120 to 129 and 144 to 147.
\<close>

definition per_group_structure ::
  "'p param_group list \<Rightarrow> 'a pyarg \<Rightarrow> error + 'a pyobj list" where
  "per_group_structure groups arg =
     (case normalize_input (length groups) arg of
        Inl err \<Rightarrow> Inl err
      | Inr gg \<Rightarrow> Inr (map (\<lambda>x. fill_none (fst x) (snd x)) (zip groups gg)))"

text \<open>
  The scalars of the batched invocation, and the state it has written when the locals
  are bound.
\<close>

definition mt_scalars ::
  "'p param_group \<Rightarrow> real \<Rightarrow> nat \<Rightarrow> 'p \<Rightarrow> real \<Rightarrow> real \<Rightarrow> ('p, 't) optimizer \<Rightarrow> scalars" where
  "mt_scalars grp cs bc q beta1 beta2 w =
     kernel_scalars grp beta1 beta2 cs (dict_step w q) (eps_mode w) bc"

definition mt_written ::
  "'t backend \<Rightarrow> 'p param_group \<Rightarrow> real \<Rightarrow> nat \<Rightarrow> ('p, 't) tensorlists \<Rightarrow> 'p \<Rightarrow> real \<Rightarrow> real \<Rightarrow>
   ('p, 't) optimizer \<Rightarrow> ('p, 't) optimizer" where
  "mt_written K grp cs bc tls q beta1 beta2 w =
     write_rows
       (zip (tl_p tls) (zip (tl_exp_avg tls) (zip (tl_exp_avg_sq tls)
          (snd (snd (adam_mt K (overflow_buf w) (mt_rows w tls) (tl_out tls)
             (mt_scalars grp cs bc q beta1 beta2 w)))))))
       (w\<lparr>overflow_buf :=
            fst (snd (adam_mt K (overflow_buf w) (mt_rows w tls) (tl_out tls)
              (mt_scalars grp cs bc q beta1 beta2 w))),
          calls := calls w @ [AdamMT tls (mt_scalars grp cs bc q beta1 beta2 w)]\<rparr>)"

text \<open>The state the batched invocation leaves behind, whether it raises or returns.\<close>

definition mt_world ::
  "(error \<times> ('p, 't) optimizer) + ('p, 't) optimizer \<Rightarrow> ('p, 't) optimizer" where
  "mt_world r = (case r of Inl x \<Rightarrow> snd x | Inr w \<Rightarrow> w)"

section \<open>Example instances\<close>

text \<open>
  A toy backend on integer tensors: the forward kernels subtract the gradient, count
  in the second moment and set the overflow register when a gradient exceeds 100;
  the reverse kernel inverts the forward one.
\<close>

definition example_backend :: "int backend" where
  "example_backend =
     \<lparr>adam = (\<lambda>ov d m v out g sc.
                (None, if 100 < tdata g then 1 else ov, d - tdata g, m + tdata g, v + 1)),
      adam_undo = (\<lambda>d m v g sc. (None, d + tdata g, m - tdata g, v - 1)),
      adam_mt = (\<lambda>ov rows outs sc.
                   (None,
                    if list_ex (\<lambda>r. 100 < tdata (snd (snd (snd r)))) rows then 1 else ov,
                    map (\<lambda>r. (fst r - tdata (snd (snd (snd r))),
                               fst (snd r) + tdata (snd (snd (snd r))),
                               fst (snd (snd r)) + 1)) rows)),
      zeros_like = (\<lambda>t. Inr 0),
      tensor_rows = (\<lambda>t. Some [t])\<rparr>"

definition example_env :: "bool \<Rightarrow> (int list, int, int) environment" where
  "example_env avail =
     \<lparr>kernel_importable = True, mt_available = avail,
      optimizer_init = (\<lambda>ps h. if ps = [] then Inl ValueError
                                else Inr [hyper.extend h (param_group.fields ps)]),
      env_data = (\<lambda>p. 10), env_grad = (\<lambda>p. None), env_gens = (\<lambda>i. [])\<rparr>"

definition example_group :: "int param_group" where
  "example_group =
     \<lparr>lr = 1 / 1000, bias_correction = True, betas = (9 / 10, 999 / 1000),
      eps = 1 / 100000000, weight_decay = 0, max_grad_norm = 0, params = [0, 1]\<rparr>"

definition example_optimizer :: "bool \<Rightarrow> bool \<Rightarrow> (int, int) optimizer" where
  "example_optimizer mt undo =
     \<lparr>use_multi_tensor = mt, overflow_buf = 0, amp_scale_adjustment = 1, eps_mode = 1,
      allow_undo = undo, param_groups = [example_group], state = Map.empty,
      amp_stash = None, p_data = (\<lambda>p. 10), p_grad = (\<lambda>p. None), gens = (\<lambda>i. []),
      calls = []\<rparr>"

definition example_scalars :: "int \<Rightarrow> scalars" where
  "example_scalars n =
     \<lparr>k_lr = 1 / 1000, k_beta1 = 9 / 10, k_beta2 = 999 / 1000, k_eps = 1 / 100000000,
      k_combined_scale = 1, k_step = n, k_eps_mode = 1, k_bias_correction = 1,
      k_weight_decay = 0\<rparr>"

text \<open>A closure that returns the loss 42 and assigns a dense gradient to parameter 0.\<close>

definition example_closure_fun ::
  "(int \<Rightarrow> int tensor option) \<Rightarrow> (error + int) \<times> (int \<Rightarrow> int tensor option)" where
  "example_closure_fun pg = (Inr 42, pg(0 := Some (Tensor False 3)))"

definition example_closure :: "(int, int, int) closure" where
  "example_closure = Some example_closure_fun"

text \<open>The example optimizer after one forward pass with that closure.\<close>

definition example_stepped :: "(int, int) optimizer" where
  "example_stepped =
     (example_optimizer False True)
       \<lparr>p_grad := (\<lambda>p. None)(0 := Some (Tensor False 3)),
        state := [0 \<mapsto> Full \<lparr>state_step = 1, state_exp_avg = 3, state_exp_avg_sq = 1\<rparr>],
        p_data := (\<lambda>p. 10)(0 := 7),
        calls := [Adam 0 EmptyFloatTensor (Tensor False 3) (example_scalars 1)]\<rparr>"

text \<open>The same optimizer after the reverse pass that follows that forward pass.\<close>

definition example_undone :: "(int, int) optimizer" where
  "example_undone =
     example_stepped
       \<lparr>state := [0 \<mapsto> Full \<lparr>state_step = 0, state_exp_avg = 0, state_exp_avg_sq = 0\<rparr>],
        p_data := (\<lambda>p. 10),
        calls := [Adam 0 EmptyFloatTensor (Tensor False 3) (example_scalars 1),
                  AdamUndo 0 (Tensor False 3) (example_scalars 1)]\<rparr>"

text \<open>
  A closure that assigns parameter 0 a gradient on which the toy forward kernel sets
  the overflow register, the optimizer after the forward pass with it, and after the
  reverse pass that \<open>step\<close> then runs.
\<close>

definition example_overflow_closure_fun ::
  "(int \<Rightarrow> int tensor option) \<Rightarrow> (error + int) \<times> (int \<Rightarrow> int tensor option)" where
  "example_overflow_closure_fun pg = (Inr 42, pg(0 := Some (Tensor False 500)))"

definition example_overflow_closure :: "(int, int, int) closure" where
  "example_overflow_closure = Some example_overflow_closure_fun"

definition example_overflowed :: "(int, int) optimizer" where
  "example_overflowed =
     (example_optimizer False True)
       \<lparr>overflow_buf := 1,
        p_grad := (\<lambda>p. None)(0 := Some (Tensor False 500)),
        state := [0 \<mapsto> Full \<lparr>state_step = 1, state_exp_avg = 500, state_exp_avg_sq = 1\<rparr>],
        p_data := (\<lambda>p. 10)(0 := - 490),
        calls := [Adam 0 EmptyFloatTensor (Tensor False 500) (example_scalars 1)]\<rparr>"

definition example_rolled_back :: "(int, int) optimizer" where
  "example_rolled_back =
     example_overflowed
       \<lparr>state := [0 \<mapsto> Full \<lparr>state_step = 0, state_exp_avg = 0, state_exp_avg_sq = 0\<rparr>],
        p_data := (\<lambda>p. 10),
        calls := [Adam 0 EmptyFloatTensor (Tensor False 500) (example_scalars 1),
                  AdamUndo 0 (Tensor False 500) (example_scalars 1)]\<rparr>"

text \<open>
  A batched optimizer whose two parameters carry dense gradients and hold different
  step counters (5 and 2), and the group step on its only group.
\<close>

definition example_batched :: "(int, int) optimizer" where
  "example_batched =
     (example_optimizer True False)
       \<lparr>p_grad := (\<lambda>p. Some (Tensor False 3)),
        state := [0 \<mapsto> Full \<lparr>state_step = 5, state_exp_avg = 0, state_exp_avg_sq = 0\<rparr>,
                  1 \<mapsto> Full \<lparr>state_step = 2, state_exp_avg = 0, state_exp_avg_sq = 0\<rparr>]\<rparr>"

definition example_batched_lists :: "(int, int) tensorlists" where
  "example_batched_lists =
     \<lparr>tl_p = [0, 1], tl_exp_avg = [0, 1], tl_exp_avg_sq = [0, 1],
      tl_grad = [Tensor False 3, Tensor False 3], tl_out = None\<rparr>"

definition example_batched_stepped :: "(int, int) optimizer" where
  "example_batched_stepped =
     example_batched
       \<lparr>state := [0 \<mapsto> Full \<lparr>state_step = 6, state_exp_avg = 3, state_exp_avg_sq = 1\<rparr>,
                  1 \<mapsto> Full \<lparr>state_step = 3, state_exp_avg = 3, state_exp_avg_sq = 1\<rparr>],
        p_data := (\<lambda>p. 10)(0 := 7, 1 := 7),
        calls := [AdamMT example_batched_lists (example_scalars 3)]\<rparr>"






text \<open>
  An optimizer whose only group lists parameter 0 twice, and the state after one
  \<open>step\<close> on it.
\<close>

definition example_twice :: "(int, int) optimizer" where
  "example_twice =
     (example_optimizer False False)
       \<lparr>param_groups := [example_group\<lparr>params := [0, 0]\<rparr>],
        p_grad := (\<lambda>p. None)(0 := Some (Tensor False 3))\<rparr>"

definition example_twice_stepped :: "(int, int) optimizer" where
  "example_twice_stepped =
     example_twice
       \<lparr>state := [0 \<mapsto> Full \<lparr>state_step = 2, state_exp_avg = 6, state_exp_avg_sq = 2\<rparr>],
        p_data := (\<lambda>p. 10)(0 := 4),
        calls := [Adam 0 EmptyFloatTensor (Tensor False 3) (example_scalars 1),
                  Adam 0 EmptyFloatTensor (Tensor False 3) (example_scalars 2)]\<rparr>"

text \<open>
  An optimizer with two groups of one parameter each, both with an attached gradient,
  and the state after one \<open>step\<close> that is given a flat list of one gradient.
\<close>

definition example_two_groups :: "(int, int) optimizer" where
  "example_two_groups =
     (example_optimizer False False)
       \<lparr>param_groups := [example_group\<lparr>params := [0]\<rparr>, example_group\<lparr>params := [1]\<rparr>],
        p_grad := (\<lambda>p. Some (Tensor False 3))\<rparr>"

definition example_two_groups_stepped :: "(int, int) optimizer" where
  "example_two_groups_stepped =
     example_two_groups
       \<lparr>state := [0 \<mapsto> Full \<lparr>state_step = 1, state_exp_avg = 5, state_exp_avg_sq = 1\<rparr>],
        p_data := (\<lambda>p. 10)(0 := 5),
        calls := [Adam 0 EmptyFloatTensor (Tensor False 5) (example_scalars 1)]\<rparr>"

text \<open>
  An optimizer with undo enabled and a generator that yields one gradient, on which
  the toy forward kernel sets the overflow register; and the state after one \<open>step\<close>
  that is given the generator: the reverse pass finds the generator exhausted.
\<close>

definition example_gen :: "(int, int) optimizer" where
  "example_gen =
     (example_optimizer False True)\<lparr>gens := (\<lambda>i. [])(0 := [PTensor (Tensor False 500)])\<rparr>"

definition example_gen_stepped :: "(int, int) optimizer" where
  "example_gen_stepped =
     (example_optimizer False True)
       \<lparr>overflow_buf := 1,
        state := [0 \<mapsto> Full \<lparr>state_step = 1, state_exp_avg = 500, state_exp_avg_sq = 1\<rparr>],
        p_data := (\<lambda>p. 10)(0 := - 490),
        calls := [Adam 0 EmptyFloatTensor (Tensor False 500) (example_scalars 1)]\<rparr>"

text \<open>
  An optimizer whose only group has no parameters; and the example optimizer after a
  forward pass that is given the gradient 3 for parameter 0 and none for parameter 1.
\<close>

definition example_none :: "(int, int) optimizer" where
  "example_none =
     (example_optimizer False False)\<lparr>param_groups := [example_group\<lparr>params := []\<rparr>]\<rparr>"

definition example_supplied_stepped :: "(int, int) optimizer" where
  "example_supplied_stepped =
     (example_optimizer False False)
       \<lparr>state := [0 \<mapsto> Full \<lparr>state_step = 1, state_exp_avg = 3, state_exp_avg_sq = 1\<rparr>],
        p_data := (\<lambda>p. 10)(0 := 7),
        calls := [Adam 0 EmptyFloatTensor (Tensor False 3) (example_scalars 1)]\<rparr>"

section \<open>Outcomes and invariants of the traversal\<close>

lemma loop_world_simps [simp]:
  "loop_world (Inl x) = snd x" "loop_world (Inr s) = fst s"
  by (simp_all add: loop_world_def)

lemma final_world_simps [simp]:
  "final_world (Inl x) = snd x" "final_world (Inr y) = snd y"
  by (simp_all add: final_world_def)

lemma param_body_skip:
  "effective_grad (p_grad w p) g = PNone \<Longrightarrow>
   param_body K undo grp cs bc (p, g, out) (w, tls, loc) = Inr (w, tls, loc)"
  by (simp add: param_body_def)

lemma param_body_list:
  "effective_grad (p_grad w p) g \<noteq> PNone \<Longrightarrow> \<forall>t. effective_grad (p_grad w p) g \<noteq> PTensor t \<Longrightarrow>
   param_body K undo grp cs bc (p, g, out) (w, tls, loc) = Inl (AttributeError, w)"
  by (cases "effective_grad (p_grad w p) g") (simp_all add: param_body_def)

lemma param_body_sparse:
  "effective_grad (p_grad w p) g = PTensor t \<Longrightarrow> is_sparse t \<Longrightarrow>
   param_body K undo grp cs bc (p, g, out) (w, tls, loc) = Inl (RuntimeError sparse_msg, w)"
  by (simp add: param_body_def)

lemma param_body_dense:
  "effective_grad (p_grad w p) g = PTensor t \<Longrightarrow> \<not> is_sparse t \<Longrightarrow>
   param_body K undo grp cs bc (p, g, out) (w, tls, loc) =
     param_update K undo grp cs bc p t out (w, tls, loc)"
  by (simp add: param_body_def)

lemma param_body_cases [case_names skip list sparse dense]:
  assumes "effective_grad (p_grad w p) g = PNone \<Longrightarrow>
             param_body K undo grp cs bc (p, g, out) (w, tls, loc) = Inr (w, tls, loc) \<Longrightarrow> Q"
    and "effective_grad (p_grad w p) g \<noteq> PNone \<Longrightarrow>
             \<forall>t. effective_grad (p_grad w p) g \<noteq> PTensor t \<Longrightarrow>
             param_body K undo grp cs bc (p, g, out) (w, tls, loc) = Inl (AttributeError, w) \<Longrightarrow> Q"
    and "\<And>t. effective_grad (p_grad w p) g = PTensor t \<Longrightarrow> is_sparse t \<Longrightarrow>
             param_body K undo grp cs bc (p, g, out) (w, tls, loc) =
               Inl (RuntimeError sparse_msg, w) \<Longrightarrow> Q"
    and "\<And>t. effective_grad (p_grad w p) g = PTensor t \<Longrightarrow> \<not> is_sparse t \<Longrightarrow>
             param_body K undo grp cs bc (p, g, out) (w, tls, loc) =
               param_update K undo grp cs bc p t out (w, tls, loc) \<Longrightarrow> Q"
  shows Q
proof (cases "effective_grad (p_grad w p) g = PNone")
  case True
  then show ?thesis by (rule assms(1)) (rule param_body_skip [OF True])
next
  case nn: False
  show ?thesis
  proof (cases "\<exists>t. effective_grad (p_grad w p) g = PTensor t")
    case True
    then obtain t where t: "effective_grad (p_grad w p) g = PTensor t" by blast
    show ?thesis
    proof (cases "is_sparse t")
      case True
      show ?thesis by (rule assms(3) [OF t True]) (rule param_body_sparse [OF t True])
    next
      case False
      show ?thesis by (rule assms(4) [OF t False]) (rule param_body_dense [OF t False])
    qed
  next
    case False
    then have nt: "\<forall>t. effective_grad (p_grad w p) g \<noteq> PTensor t" by simp
    show ?thesis by (rule assms(2) [OF nn nt]) (rule param_body_list [OF nn nt])
  qed
qed

subsection \<open>The state dictionary of a parameter\<close>

lemma get_state_cases [case_names full partial alloc1 alloc2 fresh]:
  assumes "\<And>st. state w p = Some (Full st) \<Longrightarrow> get_state K w p = Inr st \<Longrightarrow> Q"
    and "\<And>m. state w p = Some (Partial m) \<Longrightarrow> get_state K w p = Inl (KeyError, w) \<Longrightarrow> Q"
    and "\<And>err. state w p = None \<Longrightarrow>
           get_state K w p = Inl (err, w\<lparr>state := (state w)(p \<mapsto> Partial None)\<rparr>) \<Longrightarrow> Q"
    and "\<And>err m. state w p = None \<Longrightarrow>
           get_state K w p = Inl (err, w\<lparr>state := (state w)(p \<mapsto> Partial (Some m))\<rparr>) \<Longrightarrow> Q"
    and "\<And>m v. state w p = None \<Longrightarrow> zeros_like K (p_data w p) = Inr m \<Longrightarrow>
           get_state K w p = Inr \<lparr>state_step = 0, state_exp_avg = m, state_exp_avg_sq = v\<rparr> \<Longrightarrow> Q"
  shows Q
proof (cases "state w p")
  case None
  show ?thesis
  proof (cases "zeros_like K (p_data w p)")
    case (Inl err)
    show ?thesis by (rule assms(3) [OF None]) (simp add: get_state_def None Inl)
  next
    case (Inr m)
    show ?thesis by (rule assms(5) [OF None Inr]) (simp add: get_state_def None Inr)
  qed
next
  case (Some d)
  show ?thesis
  proof (cases d)
    case (Partial m)
    show ?thesis by (rule assms(2) [of m]) (simp_all add: get_state_def Some Partial)
  next
    case (Full st)
    show ?thesis by (rule assms(1) [of st]) (simp_all add: get_state_def Some Full)
  qed
qed

lemma kernel_result_cases [case_names returned raised]:
  assumes "fst r = None \<Longrightarrow> kernel_result r tls loc = Inr (snd r, tls, loc) \<Longrightarrow> Q"
    and "\<And>err. fst r = Some err \<Longrightarrow> kernel_result r tls loc = Inl (err, snd r) \<Longrightarrow> Q"
  shows Q
  using assms by (cases "fst r") (simp_all add: kernel_result_def)

lemma loop_world_kernel_result [simp]: "loop_world (kernel_result r tls loc) = snd r"
  by (cases rule: kernel_result_cases [of r tls loc]) simp_all

text \<open>
  An invariant of the parameter body follows from its two parts: the lookup of the
  state dictionary and the update proper.
\<close>

lemma param_update_world:
  assumes "\<And>x. get_state K w p = Inl x \<Longrightarrow> R (snd x)"
    and "\<And>st0. get_state K w p = Inr st0 \<Longrightarrow>
           R (loop_world (param_kernel K undo grp cs bc p t out st0 (w, tls, loc)))"
  shows "R (loop_world (param_update K undo grp cs bc p t out (w, tls, loc)))"
  using assms by (cases "get_state K w p") (simp_all add: param_update_def)

subsection \<open>The generators do not matter to the body of the parameter loop\<close>

lemma with_gens_simps [simp]:
  "with_gens G (Inl (err, w)) = Inl (err, w\<lparr>gens := G\<rparr>)"
  "with_gens G (Inr (w, y)) = Inr (w\<lparr>gens := G\<rparr>, y)"
  by (simp_all add: with_gens_def)

lemma with_gens_twice [simp]: "with_gens G (with_gens G1 r) = with_gens G r"
  by (cases r) (auto simp: with_gens_def)

lemma with_gens_Inl: "with_gens G r = Inl x \<longleftrightarrow> (\<exists>y. r = Inl y \<and> x = (fst y, (snd y)\<lparr>gens := G\<rparr>))"
  by (cases r) (auto simp: with_gens_def)

lemma with_gens_Inr: "with_gens G r = Inr s \<longleftrightarrow> (\<exists>y. r = Inr y \<and> s = ((fst y)\<lparr>gens := G\<rparr>, snd y))"
  by (cases r) (auto simp: with_gens_def)

lemma loop_world_with_gens [simp]: "loop_world (with_gens G r) = (loop_world r)\<lparr>gens := G\<rparr>"
  by (cases r) (auto simp: with_gens_def)

lemma get_state_gens:
  "get_state K (w\<lparr>gens := G\<rparr>) p =
     (case get_state K w p of Inl x \<Rightarrow> Inl (fst x, (snd x)\<lparr>gens := G\<rparr>) | Inr st \<Rightarrow> Inr st)"
  by (simp add: get_state_def split: option.splits pdict.splits sum.splits)

lemma param_kernel_gens:
  "param_kernel K undo grp cs bc p t out st0 (w\<lparr>gens := G\<rparr>, tls, loc) =
     with_gens G (param_kernel K undo grp cs bc p t out st0 (w, tls, loc))"
  by (simp add: param_kernel_def Let_def kernel_result_def undo_call_def adam_call_def
        split: option.splits)

lemma param_update_gens:
  "param_update K undo grp cs bc p t out (w\<lparr>gens := G\<rparr>, tls, loc) =
     with_gens G (param_update K undo grp cs bc p t out (w, tls, loc))"
  by (cases "get_state K w p") (auto simp: param_update_def get_state_gens param_kernel_gens)

lemma param_body_gens:
  "param_body K undo grp cs bc e (w\<lparr>gens := G\<rparr>, tls, loc) =
     with_gens G (param_body K undo grp cs bc e (w, tls, loc))"
proof -
  obtain p g out where e: "e = (p, g, out)" by (cases e)
  have "param_body K undo grp cs bc (p, g, out) (w\<lparr>gens := G\<rparr>, tls, loc) =
     with_gens G (param_body K undo grp cs bc (p, g, out) (w, tls, loc))"
    by (cases "effective_grad (p_grad w p) g") (simp_all add: param_body_def param_update_gens)
  then show ?thesis by (simp add: e)
qed

lemma entries_loop_gens:
  "entries_loop K undo grp cs bc es (w\<lparr>gens := G\<rparr>, tls, loc) =
     with_gens G (entries_loop K undo grp cs bc es (w, tls, loc))"
proof (induction es arbitrary: w tls loc)
  case Nil
  show ?case by simp
next
  case (Cons e es)
  show ?case
  proof (cases "param_body K undo grp cs bc e (w, tls, loc)")
    case (Inl x)
    then show ?thesis by (cases x) (simp add: param_body_gens)
  next
    case (Inr s)
    obtain w1 tls1 loc1 where s: "s = (w1, tls1, loc1)" by (cases s)
    show ?thesis using Inr s Cons.IH [of w1 tls1 loc1] by (simp add: param_body_gens)
  qed
qed

text \<open>
  The parameter loop is the body applied to the triples that \<open>zip\<close> yields; only the
  generators differ, which the loop consumes as it goes.
\<close>

lemma params_loop_entries:
  "\<exists>G. params_loop K undo grp cs bc ps git oit (w, tls, loc) =
          with_gens G (entries_loop K undo grp cs bc (zip_entries (gens w) ps git oit) (w, tls, loc)) \<and>
       (\<forall>s. entries_loop K undo grp cs bc (zip_entries (gens w) ps git oit) (w, tls, loc) = Inr s
            \<longrightarrow> G = zip_store (gens w) ps git oit)"
proof (induction ps arbitrary: git oit w tls loc)
  case Nil
  have "Inr (w, tls, loc) = with_gens (gens w) (Inr (w, tls, loc))" by simp
  then show ?case by auto
next
  case (Cons p ps)
  show ?case
  proof (cases "pull git (gens w)")
    case None
    have "Inr (w, tls, loc) = with_gens (gens w) (Inr (w, tls, loc))" by simp
    with None show ?thesis by auto
  next
    case (Some a)
    obtain g git1 G1 where a: "a = (g, git1, G1)" by (cases a)
    show ?thesis
    proof (cases "pull oit G1")
      case None
      then show ?thesis using Some a by auto
    next
      case so: (Some b)
      obtain out oit1 G2 where b: "b = (out, oit1, G2)" by (cases b)
      let ?b = "param_body K undo grp cs bc (p, g, out) (w, tls, loc)"
      show ?thesis
      proof (cases ?b)
        case (Inl x)
        then show ?thesis using Some a so b
          by (cases x) (auto simp: param_body_gens intro!: exI [of _ G2])
      next
        case (Inr s)
        obtain w1 tls1 loc1 where s: "s = (w1, tls1, loc1)" by (cases s)
        let ?es = "zip_entries G2 ps git1 oit1"
        from Cons.IH [of git1 oit1 "w1\<lparr>gens := G2\<rparr>" tls1 loc1]
        obtain G where G: "params_loop K undo grp cs bc ps git1 oit1 (w1\<lparr>gens := G2\<rparr>, tls1, loc1) =
            with_gens G (entries_loop K undo grp cs bc ?es (w1\<lparr>gens := G2\<rparr>, tls1, loc1))"
          and G': "\<forall>s. entries_loop K undo grp cs bc ?es (w1\<lparr>gens := G2\<rparr>, tls1, loc1) = Inr s
            \<longrightarrow> G = zip_store G2 ps git1 oit1"
          by auto
        have 1: "params_loop K undo grp cs bc (p # ps) git oit (w, tls, loc) =
            with_gens G (entries_loop K undo grp cs bc ?es (w1, tls1, loc1))"
          using Some a so b Inr s G by (simp add: param_body_gens entries_loop_gens)
        have 2: "entries_loop K undo grp cs bc (zip_entries (gens w) (p # ps) git oit) (w, tls, loc) =
            entries_loop K undo grp cs bc ?es (w1, tls1, loc1)"
          using Some a so b Inr s by simp
        have 3: "zip_store (gens w) (p # ps) git oit = zip_store G2 ps git1 oit1"
          using Some a so b by simp
        have 4: "\<forall>s. entries_loop K undo grp cs bc ?es (w1, tls1, loc1) = Inr s
            \<longrightarrow> G = zip_store G2 ps git1 oit1"
          using G' by (auto simp: entries_loop_gens with_gens_Inr)
        show ?thesis unfolding 2 3 using 1 4 by blast
      qed
    qed
  qed
qed

text \<open>A reflexive and transitive relation kept by each step is kept by the loops.\<close>

lemma entries_loop_invariant:
  assumes refl: "\<And>w. R w w"
    and trans: "\<And>a b c. R a b \<Longrightarrow> R b c \<Longrightarrow> R a c"
    and body: "\<And>e w tls loc. R w (loop_world (param_body K undo grp cs bc e (w, tls, loc)))"
  shows "R w (loop_world (entries_loop K undo grp cs bc es (w, tls, loc)))"
proof (induction es arbitrary: w tls loc)
  case Nil
  show ?case by (simp add: refl)
next
  case (Cons e es)
  show ?case
  proof (cases "param_body K undo grp cs bc e (w, tls, loc)")
    case (Inl x)
    with body [of w e tls loc] show ?thesis by (cases x) simp
  next
    case (Inr s)
    obtain w1 tls1 loc1 where s: "s = (w1, tls1, loc1)" by (cases s)
    from body [of w e tls loc] Inr s have "R w w1" by simp
    moreover have "R w1 (loop_world (entries_loop K undo grp cs bc es (w1, tls1, loc1)))"
      by (rule Cons.IH)
    ultimately show ?thesis using Inr s by (auto intro: trans)
  qed
qed

lemma gens_fixed: "w = w\<lparr>gens := G\<rparr> \<Longrightarrow> gens w = G"
proof -
  assume a: "w = w\<lparr>gens := G\<rparr>"
  from arg_cong [OF a, where f = gens] show ?thesis by simp
qed

lemma entries_loop_keeps_gens:
  "gens (loop_world (entries_loop K undo grp cs bc es (w, tls, loc))) = gens w"
proof -
  have "gens (loop_world (param_body K undo grp cs bc e (w, tls, loc))) = gens w" for e w tls loc
    using param_body_gens [where K = K and undo = undo and grp = grp and cs = cs and bc = bc
        and e = e and w = w and G = "gens w" and tls = tls and loc = loc]
    by (cases "param_body K undo grp cs bc e (w, tls, loc)")
       (auto simp: with_gens_def dest: gens_fixed)
  then show ?thesis
    by (intro entries_loop_invariant [where R = "\<lambda>w w'. gens w' = gens w"]) auto
qed

lemma mt_call_None: "mt_call K grp cs bc tls None w = Inl (UnboundLocalError, w)"
  by (simp add: mt_call_def)

lemma mt_call_Some:
  "mt_call K grp cs bc tls (Some (q, beta1, beta2)) w =
     (case fst (adam_mt K (overflow_buf w) (mt_rows w tls) (tl_out tls)
                  (mt_scalars grp cs bc q beta1 beta2 w)) of
        None \<Rightarrow> Inr (mt_written K grp cs bc tls q beta1 beta2 w)
      | Some err \<Rightarrow> Inl (err, mt_written K grp cs bc tls q beta1 beta2 w))"
  by (simp add: mt_call_def Let_def mt_written_def mt_scalars_def split: option.splits)

lemma mt_call_cases [case_names unbound returned raised]:
  assumes "loc = None \<Longrightarrow> mt_call K grp cs bc tls loc w = Inl (UnboundLocalError, w) \<Longrightarrow> Q"
    and "\<And>q beta1 beta2. loc = Some (q, beta1, beta2) \<Longrightarrow>
           mt_call K grp cs bc tls loc w = Inr (mt_written K grp cs bc tls q beta1 beta2 w) \<Longrightarrow> Q"
    and "\<And>q beta1 beta2 err. loc = Some (q, beta1, beta2) \<Longrightarrow>
           mt_call K grp cs bc tls loc w = Inl (err, mt_written K grp cs bc tls q beta1 beta2 w) \<Longrightarrow> Q"
  shows Q
proof (cases loc)
  case None
  then show ?thesis using assms(1) by (simp add: mt_call_None)
next
  case (Some x)
  obtain q beta1 beta2 where x: "x = (q, beta1, beta2)" by (cases x)
  show ?thesis
  proof (cases "fst (adam_mt K (overflow_buf w) (mt_rows w tls) (tl_out tls)
                  (mt_scalars grp cs bc q beta1 beta2 w))")
    case None
    show ?thesis by (rule assms(2) [of q beta1 beta2]) (simp_all add: Some x mt_call_Some None)
  next
    case e: (Some err)
    show ?thesis by (rule assms(3) [of q beta1 beta2 err]) (simp_all add: Some x mt_call_Some e)
  qed
qed

lemma mt_world_simps [simp]: "mt_world (Inl x) = snd x" "mt_world (Inr w) = w"
  by (simp_all add: mt_world_def)

lemma write_rows_gens: "gens (write_rows rs w) = gens w"
  by (induction rs w rule: write_rows.induct)
     (auto simp: Let_def split: option.splits pdict.splits)

lemma mt_call_gens: "gens (mt_world (mt_call K grp cs bc tls loc w)) = gens w"
  by (cases rule: mt_call_cases [of loc K grp cs bc tls w])
     (simp_all add: mt_written_def write_rows_gens)

subsection \<open>The outcomes of the body of the group loop\<close>

lemma group_entries_simp:
  "iter_of K (fill_none grp gtg) = Inr git \<Longrightarrow> iter_of K (fill_none grp otg) = Inr oit \<Longrightarrow>
   group_entries K G (grp, gtg, otg, gn) = zip_entries G (params grp) git oit \<and>
   group_store K G (grp, gtg, otg, gn) = zip_store G (params grp) git oit"
  by (simp add: group_entries_def group_store_def)

lemma group_body_cases
  [case_names scale_err iter_err loop_err no_mt mt_err mt_ok]:
  assumes "\<And>err. combined_scale (max_grad_norm grp) scale gn = Inl err \<Longrightarrow>
             group_body K undo scale outs (grp, gtg, otg, gn) (w, loc) = Inl (err, w) \<Longrightarrow> Q"
    and "\<And>cs. combined_scale (max_grad_norm grp) scale gn = Inr cs \<Longrightarrow>
             group_entries K (gens w) (grp, gtg, otg, gn) = [] \<Longrightarrow>
             group_body K undo scale outs (grp, gtg, otg, gn) (w, loc) = Inl (TypeError, w) \<Longrightarrow>
             \<not> (iterable K (fill_none grp gtg) \<and> iterable K (fill_none grp otg)) \<Longrightarrow> Q"
    and "\<And>cs err wx G. combined_scale (max_grad_norm grp) scale gn = Inr cs \<Longrightarrow>
             entries_loop K undo grp cs (if bias_correction grp then 1 else 0)
               (group_entries K (gens w) (grp, gtg, otg, gn)) (w, new_tensorlists outs, loc) = Inl (err, wx) \<Longrightarrow>
             group_body K undo scale outs (grp, gtg, otg, gn) (w, loc) = Inl (err, wx\<lparr>gens := G\<rparr>) \<Longrightarrow> Q"
    and "\<And>cs w1 tls1 loc1. combined_scale (max_grad_norm grp) scale gn = Inr cs \<Longrightarrow>
             entries_loop K undo grp cs (if bias_correction grp then 1 else 0)
               (group_entries K (gens w) (grp, gtg, otg, gn)) (w, new_tensorlists outs, loc) =
               Inr (w1, tls1, loc1) \<Longrightarrow>
             \<not> use_multi_tensor w1 \<Longrightarrow>
             group_body K undo scale outs (grp, gtg, otg, gn) (w, loc) =
               Inr (w1\<lparr>gens := group_store K (gens w) (grp, gtg, otg, gn)\<rparr>, loc1) \<Longrightarrow> Q"
    and "\<And>cs w1 tls1 loc1 x. combined_scale (max_grad_norm grp) scale gn = Inr cs \<Longrightarrow>
             entries_loop K undo grp cs (if bias_correction grp then 1 else 0)
               (group_entries K (gens w) (grp, gtg, otg, gn)) (w, new_tensorlists outs, loc) =
               Inr (w1, tls1, loc1) \<Longrightarrow>
             use_multi_tensor w1 \<Longrightarrow>
             mt_call K grp cs (if bias_correction grp then 1 else 0) tls1 loc1
               (w1\<lparr>gens := group_store K (gens w) (grp, gtg, otg, gn)\<rparr>) = Inl x \<Longrightarrow>
             group_body K undo scale outs (grp, gtg, otg, gn) (w, loc) = Inl x \<Longrightarrow> Q"
    and "\<And>cs w1 tls1 loc1 w2. combined_scale (max_grad_norm grp) scale gn = Inr cs \<Longrightarrow>
             entries_loop K undo grp cs (if bias_correction grp then 1 else 0)
               (group_entries K (gens w) (grp, gtg, otg, gn)) (w, new_tensorlists outs, loc) =
               Inr (w1, tls1, loc1) \<Longrightarrow>
             use_multi_tensor w1 \<Longrightarrow>
             mt_call K grp cs (if bias_correction grp then 1 else 0) tls1 loc1
               (w1\<lparr>gens := group_store K (gens w) (grp, gtg, otg, gn)\<rparr>) = Inr w2 \<Longrightarrow>
             group_body K undo scale outs (grp, gtg, otg, gn) (w, loc) = Inr (w2, loc1) \<Longrightarrow> Q"
  shows Q
proof (cases "combined_scale (max_grad_norm grp) scale gn")
  case (Inl err)
  show ?thesis by (rule assms(1) [OF Inl]) (simp add: group_body_def Inl)
next
  case cs: (Inr cs)
  let ?bc = "if bias_correction grp then 1 else 0 :: nat"
  show ?thesis
  proof (cases "iter_of K (fill_none grp gtg)")
    case (Inl err)
    then have "err = TypeError" by (cases "fill_none grp gtg") (auto split: option.splits)
    show ?thesis
      by (rule assms(2) [OF cs])
         (simp_all add: group_body_def group_entries_def cs Inl \<open>err = TypeError\<close> iterable_def)
  next
    case gs: (Inr git)
    show ?thesis
    proof (cases "iter_of K (fill_none grp otg)")
      case (Inl err)
      then have "err = TypeError" by (cases "fill_none grp otg") (auto split: option.splits)
      show ?thesis
        by (rule assms(2) [OF cs])
           (simp_all add: group_body_def group_entries_def cs gs Inl \<open>err = TypeError\<close>
              iterable_def)
    next
      case os: (Inr oit)
      note ge = group_entries_simp [OF gs os, of "gens w" gn]
      let ?es = "group_entries K (gens w) (grp, gtg, otg, gn)"
      let ?r = "entries_loop K undo grp cs ?bc ?es (w, new_tensorlists outs, loc)"
      from params_loop_entries [of K undo grp cs ?bc "params grp" git oit w "new_tensorlists outs" loc]
      obtain G where G: "params_loop K undo grp cs ?bc (params grp) git oit (w, new_tensorlists outs, loc) =
            with_gens G ?r"
        and G': "\<forall>s. ?r = Inr s \<longrightarrow> G = group_store K (gens w) (grp, gtg, otg, gn)"
        using ge by auto
      show ?thesis
      proof (cases ?r)
        case (Inl x)
        obtain err wx where x: "x = (err, wx)" by (cases x)
        show ?thesis
          by (rule assms(3) [OF cs, of err wx G])
             (simp_all add: Inl x group_body_def cs gs os Let_def G)
      next
        case (Inr s)
        obtain w1 tls1 loc1 where s: "s = (w1, tls1, loc1)" by (cases s)
        from G' Inr have Geq: "G = group_store K (gens w) (grp, gtg, otg, gn)" by blast
        show ?thesis
        proof (cases "use_multi_tensor w1")
          case False
          show ?thesis
            by (rule assms(4) [OF cs _ False, of tls1 loc1])
               (simp_all add: Inr s group_body_def cs gs os Let_def G False Geq [symmetric])
        next
          case True
          show ?thesis
          proof (cases "mt_call K grp cs ?bc tls1 loc1 (w1\<lparr>gens := G\<rparr>)")
            case (Inl x)
            show ?thesis
              by (rule assms(5) [OF cs _ True, of tls1 loc1 x])
                 (simp_all add: Inr s group_body_def cs gs os Let_def G True Inl Geq [symmetric])
          next
            case m: (Inr w2)
            show ?thesis
              by (rule assms(6) [OF cs _ True, of tls1 loc1 w2])
                 (simp_all add: Inr s group_body_def cs gs os Let_def G True m Geq [symmetric])
          qed
        qed
      qed
    qed
  qed
qed

text \<open>After a group that returned, the generators are those the parameter loop left.\<close>

lemma group_body_gens:
  assumes "group_body K undo scale outs e (w, loc) = Inr (w', loc')"
  shows "gens w' = group_store K (gens w) e"
proof -
  obtain grp gtg otg gn where e: "e = (grp, gtg, otg, gn)" by (cases e)
  have "gens w' = group_store K (gens w) (grp, gtg, otg, gn)"
  proof (cases rule: group_body_cases [of grp scale gn K undo outs gtg otg w loc])
    case (mt_ok cs w1 tls1 loc1 w2)
    from mt_call_gens [of K grp cs "if bias_correction grp then 1 else 0" tls1 loc1
          "w1\<lparr>gens := group_store K (gens w) (grp, gtg, otg, gn)\<rparr>"] mt_ok(4,5) assms
    show ?thesis by (simp add: e)
  qed (use assms in \<open>auto simp: e\<close>)
  then show ?thesis by (simp add: e)
qed

lemma group_body_invariant:
  assumes refl: "\<And>w. R w w"
    and trans: "\<And>a b c. R a b \<Longrightarrow> R b c \<Longrightarrow> R a c"
    and body: "\<And>grp cs bc e w tls loc. R w (loop_world (param_body K undo grp cs bc e (w, tls, loc)))"
    and mt: "\<And>grp cs bc tls loc w. R w (mt_world (mt_call K grp cs bc tls loc w))"
    and gens: "\<And>w G. R w (w\<lparr>gens := G\<rparr>)"
  shows "R w (loop_world (group_body K undo scale outs e (w, loc)))"
proof -
  obtain grp gtg otg gn where e: "e = (grp, gtg, otg, gn)" by (cases e)
  have loop: "R w (loop_world (entries_loop K undo grp cs bc es (w, tls, loc)))" for cs bc es tls
    by (rule entries_loop_invariant [where R = R]) (auto intro: refl trans body)
  have "R w (loop_world (group_body K undo scale outs (grp, gtg, otg, gn) (w, loc)))"
  proof (cases rule: group_body_cases [of grp scale gn K undo outs gtg otg w loc])
    case (scale_err err)
    then show ?thesis by (simp add: refl)
  next
    case (iter_err cs)
    then show ?thesis by (simp add: refl)
  next
    case (loop_err cs err wx G)
    from loop [of cs "if bias_correction grp then 1 else 0"
        "group_entries K (gens w) (grp, gtg, otg, gn)" "new_tensorlists outs"] loop_err(2)
    have "R w wx" by simp
    then have "R w (wx\<lparr>gens := G\<rparr>)" by (rule trans) (rule gens)
    then show ?thesis using loop_err(3) by simp
  next
    case (no_mt cs w1 tls1 loc1)
    from loop [of cs "if bias_correction grp then 1 else 0"
        "group_entries K (gens w) (grp, gtg, otg, gn)" "new_tensorlists outs"] no_mt(2)
    have "R w w1" by simp
    then have "R w (w1\<lparr>gens := group_store K (gens w) (grp, gtg, otg, gn)\<rparr>)"
      by (rule trans) (rule gens)
    then show ?thesis using no_mt(4) by simp
  next
    case (mt_err cs w1 tls1 loc1 x)
    from loop [of cs "if bias_correction grp then 1 else 0"
        "group_entries K (gens w) (grp, gtg, otg, gn)" "new_tensorlists outs"] mt_err(2)
    have "R w w1" by simp
    then have a: "R w (w1\<lparr>gens := group_store K (gens w) (grp, gtg, otg, gn)\<rparr>)"
      by (rule trans) (rule gens)
    from mt [of "w1\<lparr>gens := group_store K (gens w) (grp, gtg, otg, gn)\<rparr>" grp cs
        "if bias_correction grp then 1 else 0" tls1 loc1] mt_err(4)
    have "R (w1\<lparr>gens := group_store K (gens w) (grp, gtg, otg, gn)\<rparr>) (snd x)" by simp
    with a have "R w (snd x)" by (rule trans)
    then show ?thesis using mt_err(5) by simp
  next
    case (mt_ok cs w1 tls1 loc1 w2)
    from loop [of cs "if bias_correction grp then 1 else 0"
        "group_entries K (gens w) (grp, gtg, otg, gn)" "new_tensorlists outs"] mt_ok(2)
    have "R w w1" by simp
    then have a: "R w (w1\<lparr>gens := group_store K (gens w) (grp, gtg, otg, gn)\<rparr>)"
      by (rule trans) (rule gens)
    from mt [of "w1\<lparr>gens := group_store K (gens w) (grp, gtg, otg, gn)\<rparr>" grp cs
        "if bias_correction grp then 1 else 0" tls1 loc1] mt_ok(4)
    have "R (w1\<lparr>gens := group_store K (gens w) (grp, gtg, otg, gn)\<rparr>) w2" by simp
    with a have "R w w2" by (rule trans)
    then show ?thesis using mt_ok(5) by simp
  qed
  then show ?thesis by (simp add: e)
qed

lemma groups_loop_invariant:
  assumes refl: "\<And>w. R w w"
    and trans: "\<And>a b c. R a b \<Longrightarrow> R b c \<Longrightarrow> R a c"
    and body: "\<And>grp cs bc e w tls loc. R w (loop_world (param_body K undo grp cs bc e (w, tls, loc)))"
    and mt: "\<And>grp cs bc tls loc w. R w (mt_world (mt_call K grp cs bc tls loc w))"
    and gens: "\<And>w G. R w (w\<lparr>gens := G\<rparr>)"
  shows "R w (loop_world (groups_loop K undo scale outs es (w, loc)))"
proof (induction es arbitrary: w loc)
  case Nil
  show ?case by (simp add: refl)
next
  case (Cons e es)
  have b: "R w (loop_world (group_body K undo scale outs e (w, loc)))"
    by (rule group_body_invariant [where R = R]) (auto intro: refl trans body mt gens)
  show ?case
  proof (cases "group_body K undo scale outs e (w, loc)")
    case (Inl x)
    with b show ?thesis by (cases x) simp
  next
    case (Inr s)
    obtain w1 loc1 where s: "s = (w1, loc1)" by (cases s)
    from b Inr s have "R w w1" by simp
    moreover have "R w1 (loop_world (groups_loop K undo scale outs es (w1, loc1)))"
      by (rule Cons.IH)
    ultimately show ?thesis using Inr s by (auto intro: trans)
  qed
qed

lemma traverse_invariant:
  assumes refl: "\<And>w. R w w"
    and trans: "\<And>a b c. R a b \<Longrightarrow> R b c \<Longrightarrow> R a c"
    and body: "\<And>grp cs bc e w tls loc. R w (loop_world (param_body K undo grp cs bc e (w, tls, loc)))"
    and mt: "\<And>grp cs bc tls loc w. R w (mt_world (mt_call K grp cs bc tls loc w))"
    and gens: "\<And>w G. R w (w\<lparr>gens := G\<rparr>)"
  shows "R w (loop_world (traverse K undo w a))"
proof -
  obtain grads outs scale gns where a: "a = (grads, outs, scale, gns)" by (cases a)
  have l: "R w (loop_world (groups_loop K undo scale outs es (w, None)))" for es
    by (rule groups_loop_invariant [where R = R]) (auto intro: refl trans body mt gens)
  show ?thesis
    unfolding traverse_def a using l
    by (auto simp: refl split: sum.splits)
qed

subsection \<open>The configuration is not changed by the traversal\<close>

lemma config_eq_refl: "config_eq w w"
  by (simp add: config_eq_def)

lemma config_eq_trans: "config_eq a b \<Longrightarrow> config_eq b c \<Longrightarrow> config_eq a c"
  by (simp add: config_eq_def)

lemma param_update_config:
  "config_eq w (loop_world (param_update K undo grp cs bc p t out (w, tls, loc)))"
proof (rule param_update_world)
  fix x assume "get_state K w p = Inl x"
  then show "config_eq w (snd x)"
    by (cases rule: get_state_cases [of w p K]) (auto simp: config_eq_def)
next
  fix st0
  show "config_eq w (loop_world (param_kernel K undo grp cs bc p t out st0 (w, tls, loc)))"
    by (simp add: param_kernel_def Let_def undo_call_def adam_call_def config_eq_def)
qed

lemma param_body_config: "config_eq w (loop_world (param_body K undo grp cs bc e (w, tls, loc)))"
proof -
  obtain p g out where e: "e = (p, g, out)" by (cases e)
  show ?thesis unfolding e
    by (cases rule: param_body_cases [of w p g K undo grp cs bc out tls loc])
       (simp_all add: config_eq_refl param_update_config)
qed

lemma write_rows_config: "config_eq w (write_rows rs w)"
proof (induction rs arbitrary: w)
  case Nil show ?case by (simp add: config_eq_refl)
next
  case (Cons r rs)
  obtain pd pm pv d m v where r: "r = (pd, pm, pv, d, m, v)" by (cases r)
  show ?case unfolding r write_rows.simps
    by (rule config_eq_trans [OF _ Cons.IH])
       (auto simp: config_eq_def Let_def split: option.splits pdict.splits)
qed

lemma mt_written_config: "config_eq w (mt_written K grp cs bc tls q beta1 beta2 w)"
proof -
  have "config_eq w (w\<lparr>overflow_buf := ov, calls := cl\<rparr>)" for ov cl
    by (simp add: config_eq_def)
  then show ?thesis unfolding mt_written_def
    by (auto intro: config_eq_trans [OF _ write_rows_config])
qed

lemma mt_call_config: "config_eq w (mt_world (mt_call K grp cs bc tls loc w))"
  by (cases rule: mt_call_cases [of loc K grp cs bc tls w])
     (simp_all add: config_eq_refl mt_written_config)

lemma config_eq_gens: "config_eq w (w\<lparr>gens := G\<rparr>)"
  by (simp add: config_eq_def)

lemma traverse_config: "config_eq w (loop_world (traverse K undo w a))"
  by (rule traverse_invariant [where R = config_eq])
     (auto intro: config_eq_refl config_eq_trans param_body_config mt_call_config config_eq_gens)

subsection \<open>Flags and the overflow register across \<open>_step\<close>\<close>

lemma config_eq_flags: "config_eq w w' \<Longrightarrow> flags_eq w w'"
  by (simp add: config_eq_def flags_eq_def)

lemma prologue_flags: "flags_eq w (final_world (prologue w closure undo))"
  by (auto simp: prologue_def flags_eq_def split: option.splits prod.splits sum.splits)

lemma step_internal_flags:
  "flags_eq w (final_world (step_internal K w closure grads outs scale gns undo))"
proof (cases "prologue w closure undo")
  case (Inl x)
  with prologue_flags [of w closure undo] show ?thesis
    by (simp add: step_internal_def)
next
  case (Inr y)
  obtain loss w1 where y: "y = (loss, w1)" by (cases y)
  from prologue_flags [of w closure undo] Inr y have a: "flags_eq w w1" by simp
  have "config_eq w1 (loop_world (traverse K undo w1 (stash_override w1 (grads, outs, scale, gns))))"
    by (rule traverse_config)
  then have "flags_eq w1 (loop_world (traverse K undo w1 (stash_override w1 (grads, outs, scale, gns))))"
    by (rule config_eq_flags)
  with a show ?thesis using Inr y
    by (auto simp: step_internal_def flags_eq_def split: sum.splits)
qed

lemma step_internal_allow_undo:
  "step_internal K w closure grads outs scale gns undo = Inr (l, w1) \<Longrightarrow> allow_undo w1 = allow_undo w"
  using step_internal_flags [of w K closure grads outs scale gns undo]
  by (simp add: flags_eq_def)








subsection \<open>Evaluation of the examples\<close>

lemma example_init:
  "init (example_env avail) [0, 1] (default_args\<lparr>arg_use_mt := mt, arg_allow_undo := undo\<rparr>) =
     (if mt \<and> avail \<and> undo then Inl (AssertionError undo_mt_msg)
      else Inr (example_optimizer (mt \<and> avail) undo))"
  by (simp add: init_def example_env_def default_args_def hyper.extend_def
        param_group.fields_def example_optimizer_def example_group_def)

lemmas example_eval =
  step_internal_def prologue_def stash_override_def traverse_def normalize_norms_def
  group_body_def combined_scale_def fill_none_def new_tensorlists_def param_body_def
  param_update_def param_kernel_def kernel_result_def get_state_def bump_step_def
  step_value_def kernel_scalars_def adam_call_def undo_call_def mt_call_def mt_rows_def
  exp_avg_of_def exp_avg_sq_of_def dict_step_def tl_append_def Let_def
  example_backend_def example_optimizer_def example_group_def example_scalars_def

lemma example_forward:
  "step_internal example_backend ((example_optimizer False True)\<lparr>overflow_buf := ov\<rparr>)
     example_closure ANone ANone 1 None False =
   Inr (Some 42, example_stepped\<lparr>overflow_buf := ov\<rparr>)"
  by (simp add: example_eval example_closure_def example_closure_fun_def example_stepped_def)

lemma example_step:
  "step example_backend ((example_optimizer False True)\<lparr>overflow_buf := ov\<rparr>)
     example_closure ANone ANone 1 None =
   Inr (None, example_stepped)"
  using example_forward [of 0]
  by (simp add: step_def peek_overflow_def truthy_def)
     (simp add: example_optimizer_def example_stepped_def)

lemma example_kernels_keep: "kernels_keep (\<lambda>v. v \<noteq> 0) example_backend"
  by (simp add: kernels_keep_def example_backend_def)

subsection \<open>Parameters that the loops do not touch\<close>

lemma untouched_iff:
  "untouched q w w' \<longleftrightarrow>
     state w' q = state w q \<and> p_data w' q = p_data w q \<and>
     (\<exists>new. calls w' = calls w @ new \<and> (\<forall>c \<in> set new. \<not> mentions q c))"
proof
  assume u: "untouched q w w'"
  then have "calls w' = calls w @ issued w w'"
    unfolding untouched_def issued_def
    by (metis append_take_drop_id)
  with u show "state w' q = state w q \<and> p_data w' q = p_data w q \<and>
     (\<exists>new. calls w' = calls w @ new \<and> (\<forall>c \<in> set new. \<not> mentions q c))"
    unfolding untouched_def by (auto simp: list_ex_iff)
next
  assume "state w' q = state w q \<and> p_data w' q = p_data w q \<and>
     (\<exists>new. calls w' = calls w @ new \<and> (\<forall>c \<in> set new. \<not> mentions q c))"
  then show "untouched q w w'"
    by (auto simp: untouched_def issued_def list_ex_iff)
qed

lemma untouched_refl: "untouched q w w"
  by (simp add: untouched_iff)

lemma untouched_trans: "untouched q a b \<Longrightarrow> untouched q b c \<Longrightarrow> untouched q a c"
  by (auto simp: untouched_iff)

lemma untouched_fields:
  "untouched q w (w\<lparr>overflow_buf := ov\<rparr>)" "untouched q w (w\<lparr>p_grad := pg\<rparr>)"
  "untouched q w (w\<lparr>gens := G\<rparr>)"
  by (simp_all add: untouched_iff)

lemma untouched_gens [simp]:
  "untouched q w (w'\<lparr>gens := G\<rparr>) = untouched q w w'"
  "untouched q (w\<lparr>gens := G\<rparr>) w' = untouched q w w'"
  by (simp_all add: untouched_iff)

lemma param_update_untouched:
  assumes "q \<noteq> p"
  shows "untouched q w (loop_world (param_update K undo grp cs bc p t out (w, tls, loc)))"
proof (rule param_update_world)
  fix x assume "get_state K w p = Inl x"
  then show "untouched q w (snd x)"
    using assms by (cases rule: get_state_cases [of w p K]) (auto simp: untouched_iff)
next
  fix st0
  show "untouched q w (loop_world (param_kernel K undo grp cs bc p t out st0 (w, tls, loc)))"
    using assms
    by (simp add: param_kernel_def Let_def undo_call_def adam_call_def untouched_iff)
qed

lemma param_kernel_tl_free:
  "q \<noteq> p \<Longrightarrow> tl_free q tls \<Longrightarrow>
   param_kernel K undo grp cs bc p t out st0 (w, tls, loc) = Inr (w', tls', loc') \<Longrightarrow> tl_free q tls'"
  by (auto simp: param_kernel_def Let_def tl_append_def tl_free_def kernel_result_def
      split: if_splits option.splits)

lemma param_update_tl_free:
  "q \<noteq> p \<Longrightarrow> tl_free q tls \<Longrightarrow>
   param_update K undo grp cs bc p t out (w, tls, loc) = Inr (w', tls', loc') \<Longrightarrow> tl_free q tls'"
  by (cases "get_state K w p") (auto simp: param_update_def dest: param_kernel_tl_free)

lemma bearing_simp: "bearing pg (p, g, out) \<longleftrightarrow> effective_grad (pg p) g \<noteq> PNone"
  by (simp add: bearing_def)

lemma param_body_untouched_entry:
  assumes "\<not> (p = q \<and> bearing (p_grad w) (p, g, out))"
  shows "untouched q w (loop_world (param_body K undo grp cs bc (p, g, out) (w, tls, loc)))"
proof (cases rule: param_body_cases [of w p g K undo grp cs bc out tls loc])
  case (dense t)
  with assms have "q \<noteq> p" by (auto simp: bearing_simp)
  then show ?thesis using dense by (simp add: param_update_untouched)
qed (simp_all add: untouched_refl)

lemma param_body_untouched:
  assumes "\<not> (fst e = q \<and> bearing (p_grad w) e)"
  shows "untouched q w (loop_world (param_body K undo grp cs bc e (w, tls, loc)))"
  using assms param_body_untouched_entry [of "fst e" q w "fst (snd e)" "snd (snd e)"]
  by simp

lemma param_body_tl_free_entry:
  assumes "\<not> (p = q \<and> bearing (p_grad w) (p, g, out))" "tl_free q tls"
    and "param_body K undo grp cs bc (p, g, out) (w, tls, loc) = Inr (w', tls', loc')"
  shows "tl_free q tls'"
proof (cases rule: param_body_cases [of w p g K undo grp cs bc out tls loc])
  case (dense t)
  with assms(1) have ne: "q \<noteq> p" by (auto simp: bearing_simp)
  from dense assms(3)
  have "param_update K undo grp cs bc p t out (w, tls, loc) = Inr (w', tls', loc')" by simp
  with ne assms(2) show ?thesis by (rule param_update_tl_free)
qed (use assms(2,3) in auto)

lemma param_body_tl_free:
  assumes "\<not> (fst e = q \<and> bearing (p_grad w) e)" "tl_free q tls"
    and "param_body K undo grp cs bc e (w, tls, loc) = Inr (w', tls', loc')"
  shows "tl_free q tls'"
  using assms param_body_tl_free_entry [of "fst e" q w "fst (snd e)" "snd (snd e)" tls]
  by simp

lemma param_body_p_grad:
  "param_body K undo grp cs bc e (w, tls, loc) = Inr (w', tls', loc') \<Longrightarrow> p_grad w' = p_grad w"
  using param_body_config [of w K undo grp cs bc e tls loc] by (simp add: config_eq_def)

lemma visits_Cons:
  "visits pg q (e # es) = (if fst e = q \<and> bearing pg e then 1 else 0) + visits pg q es"
  by (simp add: visits_def)

lemma visits_append: "visits pg q (xs @ ys) = visits pg q xs + visits pg q ys"
  by (simp add: visits_def)

lemma visits_Nil [simp]: "visits pg q [] = 0"
  by (simp add: visits_def)

lemma params_loop_frame:
  assumes "visits (p_grad w) q es = 0"
  shows "untouched q w (loop_world (entries_loop K undo grp cs bc es (w, tls, loc))) \<and>
         (tl_free q tls \<longrightarrow>
          (\<forall>w' tls' loc'. entries_loop K undo grp cs bc es (w, tls, loc) = Inr (w', tls', loc')
             \<longrightarrow> tl_free q tls'))"
  using assms
proof (induction es arbitrary: w tls loc)
  case Nil
  show ?case by (simp add: untouched_refl)
next
  case (Cons e es)
  from Cons.prems have ne: "\<not> (fst e = q \<and> bearing (p_grad w) e)"
    and rest: "visits (p_grad w) q es = 0"
    by (auto simp: visits_Cons split: if_splits)
  have u: "untouched q w (loop_world (param_body K undo grp cs bc e (w, tls, loc)))"
    by (rule param_body_untouched [OF ne])
  show ?case
  proof (cases "param_body K undo grp cs bc e (w, tls, loc)")
    case (Inl x)
    with u show ?thesis by (cases x) simp
  next
    case (Inr s)
    obtain w1 tls1 loc1 where s: "s = (w1, tls1, loc1)" by (cases s)
    from Inr s have b: "param_body K undo grp cs bc e (w, tls, loc) = Inr (w1, tls1, loc1)" by simp
    from param_body_p_grad [OF b] rest have "visits (p_grad w1) q es = 0" by simp
    from Cons.IH [OF this, of tls1 loc1]
    have ih: "untouched q w1 (loop_world (entries_loop K undo grp cs bc es (w1, tls1, loc1)))"
      and ihf: "tl_free q tls1 \<Longrightarrow>
          entries_loop K undo grp cs bc es (w1, tls1, loc1) = Inr (w', tls', loc') \<Longrightarrow> tl_free q tls'"
      for w' tls' loc'
      by blast+
    from u b have "untouched q w w1" by simp
    then have "untouched q w (loop_world (entries_loop K undo grp cs bc es (w1, tls1, loc1)))"
      using ih by (rule untouched_trans)
    moreover have "tl_free q tls'" if "tl_free q tls"
      "entries_loop K undo grp cs bc es (w1, tls1, loc1) = Inr (w', tls', loc')" for w' tls' loc'
      using ihf [OF param_body_tl_free [OF ne that(1) b] that(2)] .
    ultimately show ?thesis using b by simp
  qed
qed

lemma write_rows_calls: "calls (write_rows rs w) = calls w"
  by (induction rs w rule: write_rows.induct)
     (auto simp: Let_def split: option.splits pdict.splits)

lemma write_rows_frame:
  assumes "\<forall>r \<in> set rs. fst r \<noteq> q \<and> fst (snd r) \<noteq> q \<and> fst (snd (snd r)) \<noteq> q"
  shows "state (write_rows rs w) q = state w q \<and> p_data (write_rows rs w) q = p_data w q"
  using assms
  by (induction rs w rule: write_rows.induct)
     (auto simp: Let_def split: option.splits pdict.splits)

lemma mt_written_untouched:
  assumes "tl_free q tls"
  shows "untouched q w (mt_written K grp cs bc tls p beta1 beta2 w)"
proof -
  have rows: "\<forall>r \<in> set (zip (tl_p tls) (zip (tl_exp_avg tls) (zip (tl_exp_avg_sq tls) rs))).
                fst r \<noteq> q \<and> fst (snd r) \<noteq> q \<and> fst (snd (snd r)) \<noteq> q" for rs
  proof
    fix r
    assume r: "r \<in> set (zip (tl_p tls) (zip (tl_exp_avg tls) (zip (tl_exp_avg_sq tls) rs)))"
    obtain a b c d where abcd: "r = (a, b, c, d)" by (cases r) auto
    from r abcd have "a \<in> set (tl_p tls)" by (auto dest: set_zip_leftD)
    moreover from r abcd have "(b, c, d) \<in> set (zip (tl_exp_avg tls) (zip (tl_exp_avg_sq tls) rs))"
      by (auto dest: set_zip_rightD)
    then have "b \<in> set (tl_exp_avg tls)" "(c, d) \<in> set (zip (tl_exp_avg_sq tls) rs)"
      by (auto dest: set_zip_leftD set_zip_rightD)
    then have "b \<in> set (tl_exp_avg tls)" "c \<in> set (tl_exp_avg_sq tls)"
      by (auto dest: set_zip_leftD)
    ultimately show "fst r \<noteq> q \<and> fst (snd r) \<noteq> q \<and> fst (snd (snd r)) \<noteq> q"
      using assms(1) abcd by (auto simp: tl_free_def)
  qed
  from assms show ?thesis unfolding mt_written_def
    by (auto simp: untouched_iff write_rows_frame [OF rows] write_rows_calls tl_free_def)
qed

lemma mt_call_untouched:
  assumes "tl_free q tls"
  shows "untouched q w (mt_world (mt_call K grp cs bc tls loc w))"
  by (cases rule: mt_call_cases [of loc K grp cs bc tls w])
     (simp_all add: untouched_refl mt_written_untouched [OF assms])

subsection \<open>The shapes of one group step and of the traversal\<close>

lemma normalize_input_error: "normalize_input n a = Inl err \<Longrightarrow> err = IndexError"
  by (cases "(n, a)" rule: normalize_input.cases) (auto split: if_splits)

lemma traverse_cases [case_names fail run]:
  assumes fail: "traverse K undo w (grads, outs, scale, gns) = Inl (IndexError, w) \<Longrightarrow>
        traversal K w (grads, outs, scale, gns) = [] \<Longrightarrow> Q"
    and run: "\<And>zs. traverse K undo w (grads, outs, scale, gns) =
          groups_loop K undo scale outs zs (w, None) \<Longrightarrow>
        traversal K w (grads, outs, scale, gns) = groups_entries K (gens w) zs \<Longrightarrow>
        zipped_groups w (grads, outs, scale, gns) = zs \<Longrightarrow> Q"
  shows Q
proof (cases "normalize_input (length (param_groups w)) grads")
  case (Inl err)
  from normalize_input_error [OF Inl] Inl show ?thesis
    by (intro fail) (simp_all add: traverse_def traversal_def)
next
  case gg: (Inr gg)
  show ?thesis
  proof (cases "normalize_input (length (param_groups w)) outs")
    case (Inl err)
    from normalize_input_error [OF Inl] Inl gg show ?thesis
      by (intro fail) (simp_all add: traverse_def traversal_def)
  next
    case (Inr og)
    with gg show ?thesis
      by (intro run [of "zip (param_groups w) (zip gg (zip og
            (normalize_norms (length (param_groups w)) gns)))"])
         (simp_all add: traverse_def traversal_def zipped_groups_def)
  qed
qed

lemma prologue_cases [case_names fail raised run]:
  assumes fail: "\<And>m. undo \<Longrightarrow> prologue w closure undo = Inl (AssertionError m, w) \<Longrightarrow> Q"
    and raised: "\<And>c err. \<not> undo \<Longrightarrow> closure = Some c \<Longrightarrow> fst (c (p_grad w)) = Inl err \<Longrightarrow>
        prologue w closure undo = Inl (err, w\<lparr>p_grad := snd (c (p_grad w))\<rparr>) \<Longrightarrow> Q"
    and run: "\<And>loss w1. prologue w closure undo = Inr (loss, w1) \<Longrightarrow>
        flags_eq w w1 \<Longrightarrow> state w1 = state w \<Longrightarrow> p_data w1 = p_data w \<Longrightarrow>
        calls w1 = calls w \<Longrightarrow> overflow_buf w1 = overflow_buf w \<Longrightarrow> gens w1 = gens w \<Longrightarrow>
        (undo \<or> closure = None \<longrightarrow> w1 = w) \<Longrightarrow> Q"
  shows Q
proof (cases "prologue w closure undo")
  case (Inl x)
  show ?thesis
  proof (cases undo)
    case True
    with Inl obtain m where "x = (AssertionError m, w)"
      by (auto simp: prologue_def split: if_splits)
    with Inl True show ?thesis by (intro fail [of m]) simp_all
  next
    case False
    with Inl obtain c err where "closure = Some c" "fst (c (p_grad w)) = Inl err"
      "x = (err, w\<lparr>p_grad := snd (c (p_grad w))\<rparr>)"
      by (auto simp: prologue_def split: option.splits sum.splits)
    with Inl False show ?thesis by (intro raised [of c err]) simp_all
  qed
next
  case (Inr y)
  obtain loss w1 where y: "y = (loss, w1)" by (cases y)
  from Inr y show ?thesis
    by (intro run [of loss w1])
       (auto simp: prologue_def flags_eq_def split: if_splits option.splits prod.splits sum.splits)
qed

lemma step_internal_run:
  "prologue w closure undo = Inr (loss, w1) \<Longrightarrow>
   step_internal K w closure grads outs scale gns undo =
     (case traverse K undo w1 (stash_override w1 (grads, outs, scale, gns)) of
        Inl x \<Rightarrow> Inl x
      | Inr (w2, loc) \<Rightarrow> Inr (if undo then None else loss, w2))"
  by (simp add: step_internal_def)

lemma step_internal_world:
  "prologue w closure undo = Inr (loss, w1) \<Longrightarrow>
   final_world (step_internal K w closure grads outs scale gns undo) =
     loop_world (traverse K undo w1 (stash_override w1 (grads, outs, scale, gns)))"
  by (auto simp: step_internal_run split: sum.splits)

subsection \<open>Untouched parameters, for a group and for the traversal\<close>

lemma new_tensorlists_free: "tl_free q (new_tensorlists outs)"
  by (simp add: new_tensorlists_def tl_free_def)

lemma group_body_untouched:
  assumes "visits (p_grad w) q (group_entries K (gens w) e) = 0"
  shows "untouched q w (loop_world (group_body K undo scale outs e (w, loc)))"
proof -
  obtain grp gtg otg gn where e: "e = (grp, gtg, otg, gn)" by (cases e)
  note fr = params_loop_frame [OF assms [unfolded e], of K undo grp _ _ "new_tensorlists outs" loc]
  have "untouched q w (loop_world (group_body K undo scale outs (grp, gtg, otg, gn) (w, loc)))"
  proof (cases rule: group_body_cases [of grp scale gn K undo outs gtg otg w loc])
    case (scale_err err)
    then show ?thesis by (simp add: untouched_refl)
  next
    case (iter_err cs)
    then show ?thesis by (simp add: untouched_refl)
  next
    case (loop_err cs err wx G)
    with fr [of cs "if bias_correction grp then 1 else 0"] show ?thesis by simp
  next
    case (no_mt cs w1 tls1 loc1)
    with fr [of cs "if bias_correction grp then 1 else 0"] show ?thesis by simp
  next
    case (mt_err cs w1 tls1 loc1 x)
    with fr [of cs "if bias_correction grp then 1 else 0"]
    have "untouched q w w1" "tl_free q tls1"
      by (simp_all add: new_tensorlists_free)
    with mt_call_untouched [of q tls1 "w1\<lparr>gens := group_store K (gens w) (grp, gtg, otg, gn)\<rparr>"
        K grp cs "if bias_correction grp then 1 else 0" loc1] mt_err(4,5)
    show ?thesis by (auto intro: untouched_trans)
  next
    case (mt_ok cs w1 tls1 loc1 w2)
    with fr [of cs "if bias_correction grp then 1 else 0"]
    have "untouched q w w1" "tl_free q tls1"
      by (simp_all add: new_tensorlists_free)
    with mt_call_untouched [of q tls1 "w1\<lparr>gens := group_store K (gens w) (grp, gtg, otg, gn)\<rparr>"
        K grp cs "if bias_correction grp then 1 else 0" loc1] mt_ok(4,5)
    show ?thesis by (auto intro: untouched_trans)
  qed
  then show ?thesis by (simp add: e)
qed

lemma group_body_config: "config_eq w (loop_world (group_body K undo scale outs e (w, loc)))"
  by (rule group_body_invariant [where R = config_eq])
     (auto intro: config_eq_refl config_eq_trans param_body_config mt_call_config config_eq_gens)

lemma group_body_p_grad:
  "group_body K undo scale outs e (w, loc) = Inr (w', loc') \<Longrightarrow> p_grad w' = p_grad w"
  using group_body_config [of w K undo scale outs e loc] by (simp add: config_eq_def)

lemma groups_loop_untouched:
  assumes "visits (p_grad w) q (groups_entries K (gens w) es) = 0"
  shows "untouched q w (loop_world (groups_loop K undo scale outs es (w, loc)))"
  using assms
proof (induction es arbitrary: w loc)
  case Nil
  show ?case by (simp add: untouched_refl)
next
  case (Cons e es)
  from Cons.prems have a: "visits (p_grad w) q (group_entries K (gens w) e) = 0"
    and b: "visits (p_grad w) q (groups_entries K (group_store K (gens w) e) es) = 0"
    by (simp_all add: visits_append)
  have u: "untouched q w (loop_world (group_body K undo scale outs e (w, loc)))"
    by (rule group_body_untouched [OF a])
  show ?case
  proof (cases "group_body K undo scale outs e (w, loc)")
    case (Inl x)
    with u show ?thesis by (cases x) simp
  next
    case (Inr s)
    obtain w1 loc1 where s: "s = (w1, loc1)" by (cases s)
    from Inr s have g: "group_body K undo scale outs e (w, loc) = Inr (w1, loc1)" by simp
    from group_body_p_grad [OF g] group_body_gens [OF g] b
    have "visits (p_grad w1) q (groups_entries K (gens w1) es) = 0"
      by simp
    from Cons.IH [OF this, of loc1] u g show ?thesis
      by (auto intro: untouched_trans)
  qed
qed

lemma traverse_untouched:
  assumes "visits (p_grad w) q (traversal K w a) = 0"
  shows "untouched q w (loop_world (traverse K undo w a))"
proof -
  obtain grads outs scale gns where a: "a = (grads, outs, scale, gns)" by (cases a)
  have "untouched q w (loop_world (traverse K undo w (grads, outs, scale, gns)))"
  proof (cases rule: traverse_cases [of K undo w grads outs scale gns])
    case fail
    then show ?thesis by (simp add: untouched_refl)
  next
    case (run zs)
    with assms a groups_loop_untouched [of w q K zs undo scale outs None] show ?thesis by simp
  qed
  then show ?thesis by (simp add: a)
qed

subsection \<open>Untouched parameters across \<open>_step\<close> and \<open>step\<close>\<close>

lemma step_traversal_cong:
  "flags_eq w w' \<Longrightarrow> gens w' = gens w \<Longrightarrow>
   step_traversal K w' grads outs scale gns = step_traversal K w grads outs scale gns"
  by (auto simp: step_traversal_def traversal_def stash_override_def flags_eq_def
        split: option.splits sum.splits)

text \<open>Without generators the entries do not depend on the state of the generators.\<close>

lemma zip_entries_lists:
  "zip_entries G ps (ListIter xs) (ListIter ys) = zip ps (zip xs ys) \<and>
   zip_store G ps (ListIter xs) (ListIter ys) = G"
proof (induction ps arbitrary: xs ys)
  case Nil
  show ?case by simp
next
  case (Cons p ps)
  show ?case
  proof (cases xs)
    case Nil
    then show ?thesis by simp
  next
    case cx: (Cons x xs')
    show ?thesis
    proof (cases ys)
      case Nil
      then show ?thesis using cx by simp
    next
      case (Cons y ys')
      then show ?thesis using cx Cons.IH [of xs' ys'] by simp
    qed
  qed
qed

lemma iter_of_no_gen:
  "\<not> is_gen x \<Longrightarrow> iter_of K x = Inr it \<Longrightarrow> \<exists>xs. it = ListIter xs"
  by (cases x) (auto split: option.splits)

lemma fill_none_gen [simp]: "is_gen (fill_none grp x) = is_gen x"
  by (simp add: fill_none_def)

lemma group_entries_no_gen:
  assumes "\<not> is_gen gtg" "\<not> is_gen otg"
  shows "group_entries K G (grp, gtg, otg, gn) = group_entries K G' (grp, gtg, otg, gn) \<and>
         group_store K G (grp, gtg, otg, gn) = G"
proof (cases "iter_of K (fill_none grp gtg)")
  case (Inl err)
  then show ?thesis by (simp add: group_entries_def group_store_def)
next
  case gi: (Inr git)
  with assms(1) iter_of_no_gen [of "fill_none grp gtg" K git]
  obtain xs where xs: "git = ListIter xs" by auto
  show ?thesis
  proof (cases "iter_of K (fill_none grp otg)")
    case (Inl err)
    then show ?thesis using gi by (simp add: group_entries_def group_store_def)
  next
    case (Inr oit)
    with assms(2) iter_of_no_gen [of "fill_none grp otg" K oit]
    obtain ys where ys: "oit = ListIter ys" by auto
    show ?thesis using gi Inr xs ys
      by (simp add: group_entries_def group_store_def zip_entries_lists)
  qed
qed

lemma groups_entries_no_gen:
  assumes "\<forall>z \<in> set zs. \<not> is_gen (fst (snd z)) \<and> \<not> is_gen (fst (snd (snd z)))"
  shows "groups_entries K G zs = groups_entries K G' zs"
  using assms
proof (induction zs)
  case Nil
  show ?case by simp
next
  case (Cons z zs)
  obtain grp gtg otg gn where z: "z = (grp, gtg, otg, gn)" by (cases z)
  from Cons.prems z have ng: "\<not> is_gen gtg" "\<not> is_gen otg" by simp_all
  from group_entries_no_gen [OF ng, of K G grp gn G'] group_entries_no_gen [OF ng, of K G' grp gn G]
    Cons.IH Cons.prems
  show ?case by (simp add: z)
qed

lemma normalize_input_no_gen:
  assumes "arg_gen_free a" "normalize_input n a = Inr xs"
  shows "\<forall>x \<in> set xs. \<not> is_gen x"
  using assms
  by (cases "(n, a)" rule: normalize_input.cases) (auto simp: list_all_iff split: if_splits)

lemma traversal_no_gen:
  assumes "arg_gen_free grads" "arg_gen_free outs" "param_groups w' = param_groups w"
  shows "traversal K w' (grads, outs, scale, gns) = traversal K w (grads, outs, scale, gns)"
proof (cases "normalize_input (length (param_groups w)) grads")
  case (Inl err)
  then show ?thesis using assms(3) by (simp add: traversal_def)
next
  case gg: (Inr gg)
  show ?thesis
  proof (cases "normalize_input (length (param_groups w)) outs")
    case (Inl err)
    then show ?thesis using assms(3) gg by (simp add: traversal_def)
  next
    case (Inr og)
    let ?zs = "zip (param_groups w) (zip gg (zip og
            (normalize_norms (length (param_groups w)) gns)))"
    have "\<forall>z \<in> set ?zs. \<not> is_gen (fst (snd z)) \<and> \<not> is_gen (fst (snd (snd z)))"
    proof
      fix z assume z: "z \<in> set ?zs"
      obtain grp gtg otg gn where zz: "z = (grp, gtg, otg, gn)" by (cases z)
      from z zz have 1: "(gtg, otg, gn) \<in> set (zip gg (zip og
            (normalize_norms (length (param_groups w)) gns)))"
        by (auto dest: set_zip_rightD)
      then have "gtg \<in> set gg" by (rule set_zip_leftD)
      moreover from 1 have "(otg, gn) \<in> set (zip og
            (normalize_norms (length (param_groups w)) gns))" by (rule set_zip_rightD)
      then have "otg \<in> set og" by (rule set_zip_leftD)
      ultimately have "gtg \<in> set gg" "otg \<in> set og" .
      with normalize_input_no_gen [OF assms(1) gg] normalize_input_no_gen [OF assms(2) Inr] zz
      show "\<not> is_gen (fst (snd z)) \<and> \<not> is_gen (fst (snd (snd z)))" by simp
    qed
    from groups_entries_no_gen [OF this, of K "gens w'" "gens w"] gg Inr assms(3)
    show ?thesis by (simp add: traversal_def)
  qed
qed

lemma step_traversal_no_gen:
  assumes "gen_free w grads outs" "flags_eq w w'"
  shows "step_traversal K w' grads outs scale gns = step_traversal K w grads outs scale gns"
proof (cases "amp_stash w")
  case None
  with assms have "arg_gen_free grads" "arg_gen_free outs" "param_groups w' = param_groups w"
    "amp_stash w' = None"
    by (simp_all add: gen_free_def flags_eq_def)
  with None traversal_no_gen [of grads outs w' w K scale gns] show ?thesis
    by (simp add: step_traversal_def stash_override_def)
next
  case (Some s)
  with assms have "arg_gen_free (stash_grads s)" "arg_gen_free (stash_output_params s)"
    "param_groups w' = param_groups w" "amp_stash w' = Some s"
    "amp_scale_adjustment w' = amp_scale_adjustment w"
    by (simp_all add: gen_free_def flags_eq_def)
  with Some traversal_no_gen [of "stash_grads s" "stash_output_params s" w' w K] show ?thesis
    by (simp add: step_traversal_def stash_override_def)
qed

lemma visits_zero_iff:
  "visits pg q es = 0 \<longleftrightarrow> (\<forall>e \<in> set es. fst e = q \<longrightarrow> \<not> bearing pg e)"
  by (auto simp: visits_def filter_empty_conv)

lemma absent_not_bearing:
  assumes "pg q = None" "\<forall>e \<in> set es. fst e = q \<longrightarrow> fst (snd e) = PNone"
  shows "visits pg q es = 0"
  using assms by (auto simp: visits_zero_iff bearing_def)

lemma step_internal_p_grad:
  "prologue w closure undo = Inr (loss, w1) \<Longrightarrow>
   p_grad (final_world (step_internal K w closure grads outs scale gns undo)) = p_grad w1"
  using traverse_config [of w1 K undo "stash_override w1 (grads, outs, scale, gns)"]
  by (simp add: step_internal_world config_eq_def)

lemma step_internal_untouched:
  assumes "visits (p_grad (final_world (step_internal K w closure grads outs scale gns undo))) q
             (step_traversal K w grads outs scale gns) = 0"
  shows "untouched q w (final_world (step_internal K w closure grads outs scale gns undo))"
proof (cases rule: prologue_cases [of undo w closure])
  case (fail m)
  then show ?thesis by (simp add: step_internal_def untouched_refl)
next
  case (raised c err)
  then show ?thesis by (simp add: step_internal_def untouched_fields)
next
  case (run loss w1)
  from run have u: "untouched q w w1" by (simp add: untouched_iff)
  from assms have "visits (p_grad w1) q (traversal K w1 (stash_override w1 (grads, outs, scale, gns))) = 0"
    using step_internal_p_grad [OF run(1)] step_traversal_cong [OF run(2,7)]
    by (simp add: step_traversal_def)
  then have "untouched q w1 (loop_world (traverse K undo w1 (stash_override w1 (grads, outs, scale, gns))))"
    by (rule traverse_untouched)
  with u show ?thesis unfolding step_internal_world [OF run(1)] by (rule untouched_trans)
qed

lemma step_cases [case_names fail no_undo undo]:
  assumes fail: "\<And>x. step_internal K (w\<lparr>overflow_buf := 0\<rparr>) closure grads outs scale gns False = Inl x \<Longrightarrow>
        step K w closure grads outs scale gns = Inl x \<Longrightarrow> Q"
    and no_undo: "\<And>loss w1.
        step_internal K (w\<lparr>overflow_buf := 0\<rparr>) closure grads outs scale gns False = Inr (loss, w1) \<Longrightarrow>
        \<not> (allow_undo w \<and> overflow_buf w1 \<noteq> 0) \<Longrightarrow>
        step K w closure grads outs scale gns = Inr (None, w1) \<Longrightarrow> Q"
    and undo: "\<And>loss w1.
        step_internal K (w\<lparr>overflow_buf := 0\<rparr>) closure grads outs scale gns False = Inr (loss, w1) \<Longrightarrow>
        allow_undo w \<Longrightarrow> overflow_buf w1 \<noteq> 0 \<Longrightarrow>
        final_world (step K w closure grads outs scale gns) =
          final_world (step_internal K w1 closure grads outs scale gns True) \<Longrightarrow>
        step K w closure grads outs scale gns =
          (case step_internal K w1 closure grads outs scale gns True of
             Inl x \<Rightarrow> Inl x | Inr (r, w2) \<Rightarrow> Inr (None, w2)) \<Longrightarrow> Q"
  shows Q
proof (cases "step_internal K (w\<lparr>overflow_buf := 0\<rparr>) closure grads outs scale gns False")
  case (Inl x)
  then show ?thesis by (intro fail [of x]) (simp_all add: step_def)
next
  case (Inr y)
  obtain loss w1 where y: "y = (loss, w1)" by (cases y)
  note f = Inr [unfolded y]
  from step_internal_allow_undo [OF f] have au: "allow_undo w1 = allow_undo w" by simp
  show ?thesis
  proof (cases "allow_undo w \<and> overflow_buf w1 \<noteq> 0")
    case False
    with f au show ?thesis
      by (intro no_undo [of loss w1]) (auto simp: step_def peek_overflow_def truthy_def)
  next
    case True
    with f au show ?thesis
      by (intro undo [of loss w1])
         (auto simp: step_def peek_overflow_def truthy_def split: sum.splits)
  qed
qed

lemma step_internal_Inr_world:
  "step_internal K w closure grads outs scale gns undo = Inr (l, w1) \<Longrightarrow>
   final_world (step_internal K w closure grads outs scale gns undo) = w1"
  by simp

lemma step_internal_undo_p_grad:
  "p_grad (final_world (step_internal K w closure grads outs scale gns True)) = p_grad w"
proof (cases rule: prologue_cases [of True w closure])
  case (fail m)
  then show ?thesis by (simp add: step_internal_def)
next
  case (raised c err)
  then show ?thesis by simp
next
  case (run loss w1)
  then have "w1 = w" by simp
  with step_internal_p_grad [OF run(1)] show ?thesis by simp
qed

lemma step_entries_forward:
  "visits pg q (step_entries K w closure grads outs scale gns) = 0 \<Longrightarrow>
   visits pg q (step_traversal K w grads outs scale gns) = 0"
  by (simp add: step_entries_def visits_append)

lemma step_entries_undo:
  assumes "visits pg q (step_entries K w closure grads outs scale gns) = 0"
    and "step_internal K (w\<lparr>overflow_buf := 0\<rparr>) closure grads outs scale gns False = Inr (loss, w1)"
    and "allow_undo w" "overflow_buf w1 \<noteq> 0"
  shows "visits pg q (step_traversal K w1 grads outs scale gns) = 0"
  using assms step_internal_allow_undo [OF assms(2)]
  by (simp add: step_entries_def visits_append peek_overflow_def truthy_def)

lemma step_untouched:
  assumes "visits (p_grad (final_world (step K w closure grads outs scale gns))) q
             (step_entries K w closure grads outs scale gns) = 0"
  shows "untouched q w (final_world (step K w closure grads outs scale gns))"
proof -
  let ?w0 = "w\<lparr>overflow_buf := 0\<rparr>"
  have t0: "step_traversal K ?w0 grads outs scale gns = step_traversal K w grads outs scale gns"
    by (rule step_traversal_cong) (simp_all add: flags_eq_def)
  have u0: "untouched q w ?w0" by (rule untouched_fields)
  note fw = step_entries_forward [OF assms]
  show ?thesis
  proof (cases rule: step_cases [of K w closure grads outs scale gns])
    case (fail x)
    with fw t0 step_internal_untouched [of K ?w0 closure grads outs scale gns False q]
    have "untouched q ?w0 (final_world (step K w closure grads outs scale gns))" by simp
    with u0 show ?thesis by (rule untouched_trans)
  next
    case (no_undo loss w1)
    with fw t0 step_internal_untouched [of K ?w0 closure grads outs scale gns False q]
    have "untouched q ?w0 (final_world (step K w closure grads outs scale gns))" by simp
    with u0 show ?thesis by (rule untouched_trans)
  next
    case (undo loss w1)
    let ?w2 = "final_world (step_internal K w1 closure grads outs scale gns True)"
    have pg: "p_grad ?w2 = p_grad w1" by (rule step_internal_undo_p_grad)
    from fw undo(4) pg have v: "visits (p_grad w1) q (step_traversal K w grads outs scale gns) = 0"
      by simp
    from step_entries_undo [OF assms undo(1,2,3)] undo(4) pg
    have v1: "visits (p_grad w1) q (step_traversal K w1 grads outs scale gns) = 0" by simp
    from v t0 undo(1) step_internal_untouched [of K ?w0 closure grads outs scale gns False q]
    have a: "untouched q ?w0 w1" by simp
    from v1 pg step_internal_untouched [of K w1 closure grads outs scale gns True q]
    have b: "untouched q w1 ?w2" by simp
    from u0 a b undo(4) show ?thesis by (auto intro: untouched_trans)
  qed
qed

subsection \<open>Step counters\<close>

lemma step_of_get_state: "get_state K w q = Inr st \<Longrightarrow> state_step st = step_of w q"
  by (cases rule: get_state_cases [of w q K]) (auto simp: step_of_def)

lemma dict_step_eq: "dict_step w q = step_of w q"
  by (simp add: dict_step_def step_of_def)

lemma step_of_gens [simp]: "step_of (w\<lparr>gens := G\<rparr>) q = step_of w q"
  by (simp add: step_of_def)

lemma param_kernel_step_of:
  "step_of (loop_world (param_kernel K undo grp cs bc p t out st0 (w, tls, loc))) q =
     (if q = p then state_step st0 + (if undo then - 1 else 1) else step_of w q)"
  by (simp add: param_kernel_def Let_def undo_call_def adam_call_def bump_step_def step_of_def)

lemma param_update_step_of:
  assumes "param_update K undo grp cs bc p t out (w, tls, loc) = Inr (w1, tls1, loc1)"
  shows "step_of w1 q = step_of w q + (if q = p then (if undo then - 1 else 1) else 0)"
proof (cases "get_state K w p")
  case (Inl x)
  with assms show ?thesis by (simp add: param_update_def)
next
  case (Inr st0)
  with assms param_kernel_step_of [of K undo grp cs bc p t out st0 w tls loc q]
    step_of_get_state [OF Inr]
  show ?thesis by (auto simp: param_update_def)
qed

lemma param_update_mono:
  "step_of w q \<le> step_of (loop_world (param_update K False grp cs bc p t out (w, tls, loc))) q"
proof (rule param_update_world)
  fix x assume "get_state K w p = Inl x"
  then show "step_of w q \<le> step_of (snd x) q"
    by (cases rule: get_state_cases [of w p K]) (auto simp: step_of_def)
next
  fix st0 assume "get_state K w p = Inr st0"
  from step_of_get_state [OF this] param_kernel_step_of [of K False grp cs bc p t out st0 w tls loc q]
  show "step_of w q \<le> step_of (loop_world (param_kernel K False grp cs bc p t out st0 (w, tls, loc))) q"
    by simp
qed

lemma param_body_step_of_entry:
  assumes "param_body K undo grp cs bc (p, g, out) (w, tls, loc) = Inr (w1, tls1, loc1)"
  shows "step_of w1 q =
     step_of w q + (if p = q \<and> bearing (p_grad w) (p, g, out) then (if undo then - 1 else 1) else 0)"
proof (cases rule: param_body_cases [of w p g K undo grp cs bc out tls loc])
  case skip
  with assms show ?thesis by (simp add: bearing_simp)
next
  case list
  with assms show ?thesis by simp
next
  case (sparse t)
  with assms show ?thesis by simp
next
  case (dense t)
  with assms have "param_update K undo grp cs bc p t out (w, tls, loc) = Inr (w1, tls1, loc1)"
    by simp
  from param_update_step_of [OF this, of q] dense
  show ?thesis by (auto simp: bearing_simp)
qed

lemma param_body_step_of:
  assumes "param_body K undo grp cs bc e (w, tls, loc) = Inr (w1, tls1, loc1)"
  shows "step_of w1 q =
     step_of w q + (if fst e = q \<and> bearing (p_grad w) e then (if undo then - 1 else 1) else 0)"
  using assms param_body_step_of_entry [of K undo grp cs bc "fst e" "fst (snd e)" "snd (snd e)"]
  by simp

lemma param_body_mono_entry:
  "step_of w q \<le> step_of (loop_world (param_body K False grp cs bc (p, g, out) (w, tls, loc))) q"
proof (cases rule: param_body_cases [of w p g K False grp cs bc out tls loc])
  case (dense t)
  with param_update_mono [of w q K grp cs bc p t out tls loc] show ?thesis by simp
qed simp_all

lemma param_body_mono:
  "step_of w q \<le> step_of (loop_world (param_body K False grp cs bc e (w, tls, loc))) q"
  using param_body_mono_entry [of w q K grp cs bc "fst e" "fst (snd e)" "snd (snd e)"] by simp

lemma params_loop_step_of:
  assumes "entries_loop K undo grp cs bc es (w, tls, loc) = Inr (w', tls', loc')"
  shows "step_of w' q =
     step_of w q + (if undo then - 1 else 1) * int (visits (p_grad w) q es)"
  using assms
proof (induction es arbitrary: w tls loc)
  case Nil
  then show ?case by simp
next
  case (Cons e es)
  from Cons.prems obtain w1 tls1 loc1 where
    b: "param_body K undo grp cs bc e (w, tls, loc) = Inr (w1, tls1, loc1)" and
    r: "entries_loop K undo grp cs bc es (w1, tls1, loc1) = Inr (w', tls', loc')"
    by (auto split: sum.splits)
  from Cons.IH [OF r] param_body_step_of [OF b, of q] param_body_p_grad [OF b]
  show ?case by (simp add: visits_Cons algebra_simps)
qed

lemma write_row_step_of:
  "step_of (let w1 = w\<lparr>p_data := (p_data w)(pd := d)\<rparr>;
            w2 = (case state w1 pm of
                    Some (Full st) \<Rightarrow>
                      w1\<lparr>state := (state w1)(pm \<mapsto> Full (st\<lparr>state_exp_avg := m\<rparr>))\<rparr>
                  | _ \<Rightarrow> w1)
        in case state w2 pv of
             Some (Full st) \<Rightarrow>
               w2\<lparr>state := (state w2)(pv \<mapsto> Full (st\<lparr>state_exp_avg_sq := v\<rparr>))\<rparr>
           | _ \<Rightarrow> w2) q = step_of w q"
  by (simp add: Let_def step_of_def split: option.splits pdict.splits)

lemma write_rows_step_of: "step_of (write_rows rs w) q = step_of w q"
proof (induction rs arbitrary: w)
  case Nil
  show ?case by simp
next
  case (Cons r rs)
  obtain pd pm pv d m v where r: "r = (pd, pm, pv, d, m, v)" by (cases r)
  show ?case unfolding r write_rows.simps Cons.IH by (rule write_row_step_of)
qed

lemma mt_call_step_of: "step_of (mt_world (mt_call K grp cs bc tls loc w)) q = step_of w q"
proof -
  have "step_of (w\<lparr>overflow_buf := ov, calls := cl\<rparr>) q = step_of w q" for ov cl
    by (simp add: step_of_def)
  then show ?thesis
    by (cases rule: mt_call_cases [of loc K grp cs bc tls w])
       (simp_all add: mt_written_def write_rows_step_of)
qed

lemma group_body_step_of:
  assumes "group_body K undo scale outs e (w, loc) = Inr (w', loc')"
  shows "step_of w' q =
     step_of w q + (if undo then - 1 else 1) *
       int (visits (p_grad w) q (group_entries K (gens w) e))"
proof -
  obtain grp gtg otg gn where e: "e = (grp, gtg, otg, gn)" by (cases e)
  from assms [unfolded e]
  have "step_of w' q = step_of w q +
      (if undo then - 1 else 1) *
        int (visits (p_grad w) q (group_entries K (gens w) (grp, gtg, otg, gn)))"
  proof (cases rule: group_body_cases [of grp scale gn K undo outs gtg otg w loc])
    case (no_mt cs w1 tls1 loc1)
    from assms e no_mt(4)
    have "w' = w1\<lparr>gens := group_store K (gens w) (grp, gtg, otg, gn)\<rparr>" by simp
    with params_loop_step_of [OF no_mt(2), of q] show ?thesis by simp
  next
    case (mt_ok cs w1 tls1 loc1 w2)
    from assms e mt_ok(5) have "w' = w2" by simp
    with params_loop_step_of [OF mt_ok(2), of q] mt_ok(4)
      mt_call_step_of [of K grp cs "if bias_correction grp then 1 else 0" tls1 loc1
        "w1\<lparr>gens := group_store K (gens w) (grp, gtg, otg, gn)\<rparr>" q]
    show ?thesis by simp
  qed (use assms e in simp_all)
  then show ?thesis by (simp add: e)
qed

lemma groups_loop_step_of:
  assumes "groups_loop K undo scale outs es (w, loc) = Inr (w', loc')"
  shows "step_of w' q =
     step_of w q + (if undo then - 1 else 1) *
       int (visits (p_grad w) q (groups_entries K (gens w) es))"
  using assms
proof (induction es arbitrary: w loc)
  case Nil
  then show ?case by simp
next
  case (Cons e es)
  from Cons.prems obtain w1 loc1 where
    b: "group_body K undo scale outs e (w, loc) = Inr (w1, loc1)" and
    r: "groups_loop K undo scale outs es (w1, loc1) = Inr (w', loc')"
    by (auto split: sum.splits)
  from Cons.IH [OF r] group_body_step_of [OF b, of q] group_body_p_grad [OF b]
    group_body_gens [OF b]
  show ?case by (simp add: visits_append algebra_simps)
qed

lemma traverse_step_of:
  assumes "traverse K undo w a = Inr (w', loc')"
  shows "step_of w' q =
     step_of w q + (if undo then - 1 else 1) * int (visits (p_grad w) q (traversal K w a))"
proof -
  obtain grads outs scale gns where a: "a = (grads, outs, scale, gns)" by (cases a)
  from assms [unfolded a]
  have "step_of w' q = step_of w q +
      (if undo then - 1 else 1) * int (visits (p_grad w) q (traversal K w (grads, outs, scale, gns)))"
  proof (cases rule: traverse_cases [of K undo w grads outs scale gns])
    case fail
    with assms a show ?thesis by simp
  next
    case (run zs)
    with assms a groups_loop_step_of [of K undo scale outs zs w None w' loc' q] show ?thesis
      by simp
  qed
  then show ?thesis by (simp add: a)
qed

lemma step_of_prologue:
  "prologue w closure undo = Inr (loss, w1) \<Longrightarrow> step_of w1 q = step_of w q"
  by (auto simp: prologue_def step_of_def split: if_splits option.splits prod.splits sum.splits)

lemma step_internal_step_of:
  assumes "step_internal K w closure grads outs scale gns undo = Inr (l, w')"
  shows "step_of w' q =
     step_of w q + (if undo then - 1 else 1) *
       int (visits (p_grad w') q (step_traversal K w grads outs scale gns))"
proof (cases rule: prologue_cases [of undo w closure])
  case (fail m)
  with assms show ?thesis by (simp add: step_internal_def)
next
  case (raised c err)
  with assms show ?thesis by (simp add: step_internal_def)
next
  case (run loss w1)
  from assms obtain loc where
    t: "traverse K undo w1 (stash_override w1 (grads, outs, scale, gns)) = Inr (w', loc)"
    by (auto simp: step_internal_run [OF run(1)] split: sum.splits)
  from step_internal_p_grad [OF run(1), of K grads outs scale gns] assms
  have pg: "p_grad w' = p_grad w1" by simp
  from traverse_step_of [OF t, of q] pg step_of_prologue [OF run(1), of q]
    step_traversal_cong [OF run(2,7), of K grads outs scale gns]
  show ?thesis by (simp add: step_traversal_def)
qed

lemma traverse_mono:
  "\<forall>q. step_of w q \<le> step_of (loop_world (traverse K False w a)) q"
  by (rule traverse_invariant [where R = "\<lambda>w w'. \<forall>q. step_of w q \<le> step_of w' q"])
     (auto intro: order_trans param_body_mono simp: mt_call_step_of)

lemma step_internal_mono:
  "step_of w q \<le> step_of (final_world (step_internal K w closure grads outs scale gns False)) q"
proof (cases rule: prologue_cases [of False w closure])
  case (fail m)
  then show ?thesis by simp
next
  case (raised c err)
  then show ?thesis by (simp add: step_internal_def step_of_def)
next
  case (run loss w1)
  from traverse_mono [of w1 K "stash_override w1 (grads, outs, scale, gns)"]
  have "step_of w1 q \<le>
    step_of (loop_world (traverse K False w1 (stash_override w1 (grads, outs, scale, gns)))) q"
    by blast
  with step_of_prologue [OF run(1), of q] show ?thesis
    by (simp add: step_internal_world [OF run(1)])
qed

subsection \<open>The traversal of a default call\<close>

lemma default_group_entries:
  "group_entries K G (grp, PNone, PNone, gn) = map (\<lambda>p. (p, PNone, PNone)) (params grp)"
  "group_store K G (grp, PNone, PNone, gn) = G"
  by (simp_all add: group_entries_def group_store_def fill_none_def zip_entries_lists
        zip_replicate2 map_zip_map2 zip_same_conv_map)

lemma zip_replicate_const:
  "zip xs (replicate (length xs) c) = map (\<lambda>x. (x, c)) xs"
  by (simp add: zip_replicate2)

lemma default_groups_entries:
  "groups_entries K G (zip gs (replicate (length gs) (PNone, PNone, None))) =
   concat (map (\<lambda>grp. map (\<lambda>p. (p, PNone, PNone)) (params grp)) gs)"
  by (induction gs) (simp_all add: default_group_entries)

lemma default_traversal:
  assumes "amp_stash w = None"
  shows "step_traversal K w ANone ANone scale None =
     concat (map (\<lambda>grp. map (\<lambda>p. (p, PNone, PNone)) (params grp)) (param_groups w))"
  using assms
  by (simp add: step_traversal_def traversal_def stash_override_def normalize_norms_def
        default_groups_entries)

lemma visits_default:
  "visits pg q (concat (map (\<lambda>grp. map (\<lambda>p. (p, PNone, PNone)) (params grp)) gs)) =
     (if pg q = None then 0 else count_list (concat (map params gs)) q)"
proof -
  have a: "visits pg q (map (\<lambda>p. (p, PNone, PNone)) ps) =
             (if pg q = None then 0 else count_list ps q)" for ps
    by (induction ps) (auto simp: visits_Cons bearing_def)
  show ?thesis
    by (induction gs) (auto simp: visits_append a)
qed

subsection \<open>Evaluation of the reverse pass on the example\<close>

lemma example_undo:
  "step_internal example_backend (example_stepped\<lparr>overflow_buf := ov\<rparr>) example_closure
     ANone ANone 1 None True = Inr (None, example_undone\<lparr>overflow_buf := ov\<rparr>)"
  by (simp add: example_eval example_closure_def example_stepped_def example_undone_def
        fun_upd_idem_iff)

lemma example_overflow_forward:
  "step_internal example_backend ((example_optimizer False True)\<lparr>overflow_buf := 0\<rparr>)
     example_overflow_closure ANone ANone 1 None False = Inr (Some 42, example_overflowed)"
  by (simp add: example_eval example_overflow_closure_def example_overflow_closure_fun_def
        example_overflowed_def)

lemma example_overflow_undo:
  "step_internal example_backend example_overflowed example_overflow_closure ANone ANone 1 None
     True = Inr (None, example_rolled_back)"
  by (simp add: example_eval example_overflow_closure_def example_overflowed_def
        example_rolled_back_def fun_upd_idem_iff)

lemma example_overflow_step:
  "step example_backend (example_optimizer False True) example_overflow_closure ANone ANone 1 None =
     Inr (None, example_rolled_back)"
proof -
  have "allow_undo example_overflowed" "truthy (fst (peek_overflow example_overflowed))"
    "snd (peek_overflow example_overflowed) = example_overflowed"
    by (simp_all add: example_overflowed_def example_optimizer_def peek_overflow_def truthy_def)
  with example_overflow_forward example_overflow_undo show ?thesis
    by (simp add: step_def)
qed

lemma example_traversal:
  "step_traversal example_backend (example_optimizer False True) ANone ANone 1 None =
     [(0, PNone, PNone), (1, PNone, PNone)]"
  by (simp add: default_traversal example_optimizer_def example_group_def)

subsection \<open>The locals read by the batched invocation\<close>

lemma last_bearing_Nil [simp]: "last_bearing pg [] = None"
  by (simp add: last_bearing_def)

lemma last_bearing_Cons:
  "last_bearing pg (e # es) =
     (case last_bearing pg es of
        Some p \<Rightarrow> Some p
      | None \<Rightarrow> if bearing pg e then Some (fst e) else None)"
  by (cases "rev (filter (bearing pg) es)") (auto simp: last_bearing_def)

lemma param_update_loc:
  "param_update K undo grp cs bc p t out (w, tls, loc) = Inr (w1, tls1, loc1) \<Longrightarrow>
   loc1 = Some (p, fst (betas grp), snd (betas grp))"
  by (cases "get_state K w p")
     (auto simp: param_update_def param_kernel_def kernel_result_def Let_def
        split: if_splits option.splits)

lemma param_body_loc_entry:
  assumes "param_body K undo grp cs bc (p, g, out) (w, tls, loc) = Inr (w1, tls1, loc1)"
  shows "loc1 = (if bearing (p_grad w) (p, g, out)
                 then Some (p, fst (betas grp), snd (betas grp)) else loc)"
proof (cases rule: param_body_cases [of w p g K undo grp cs bc out tls loc])
  case (dense t)
  with assms param_update_loc [of K undo grp cs bc p t out w tls loc w1 tls1 loc1]
  show ?thesis by (simp add: bearing_simp)
qed (use assms in \<open>simp_all add: bearing_simp\<close>)

lemma param_body_loc:
  assumes "param_body K undo grp cs bc e (w, tls, loc) = Inr (w1, tls1, loc1)"
  shows "loc1 = (if bearing (p_grad w) e
                 then Some (fst e, fst (betas grp), snd (betas grp)) else loc)"
  using assms param_body_loc_entry [of K undo grp cs bc "fst e" "fst (snd e)" "snd (snd e)"]
  by simp

lemma params_loop_loc:
  assumes "entries_loop K undo grp cs bc es (w, tls, loc) = Inr (w', tls', loc')"
  shows "loc' = (case last_bearing (p_grad w) es of
                   None \<Rightarrow> loc
                 | Some p \<Rightarrow> Some (p, fst (betas grp), snd (betas grp)))"
  using assms
proof (induction es arbitrary: w tls loc)
  case Nil
  then show ?case by simp
next
  case (Cons e es)
  from Cons.prems obtain w1 tls1 loc1 where
    b: "param_body K undo grp cs bc e (w, tls, loc) = Inr (w1, tls1, loc1)" and
    r: "entries_loop K undo grp cs bc es (w1, tls1, loc1) = Inr (w', tls', loc')"
    by (auto split: sum.splits)
  from Cons.IH [OF r] param_body_loc [OF b] param_body_p_grad [OF b]
  show ?case by (auto simp: last_bearing_Cons split: option.splits)
qed

lemma param_update_mt_calls:
  assumes "use_multi_tensor w"
  shows "calls (loop_world (param_update K undo grp cs bc p t out (w, tls, loc))) = calls w"
proof (rule param_update_world)
  fix x assume "get_state K w p = Inl x"
  then show "calls (snd x) = calls w"
    by (cases rule: get_state_cases [of w p K]) auto
next
  fix st0
  show "calls (loop_world (param_kernel K undo grp cs bc p t out st0 (w, tls, loc))) = calls w"
    using assms by (simp add: param_kernel_def Let_def)
qed

lemma param_body_mt_calls_entry:
  assumes "use_multi_tensor w"
  shows "calls (loop_world (param_body K undo grp cs bc (p, g, out) (w, tls, loc))) = calls w"
  by (cases rule: param_body_cases [of w p g K undo grp cs bc out tls loc])
     (simp_all add: param_update_mt_calls [OF assms])

lemma param_body_mt:
  "use_multi_tensor w \<longrightarrow>
   use_multi_tensor (loop_world (param_body K undo grp cs bc e (w, tls, loc))) \<and>
   calls (loop_world (param_body K undo grp cs bc e (w, tls, loc))) = calls w"
  using param_body_mt_calls_entry [of w K undo grp cs bc "fst e" "fst (snd e)" "snd (snd e)" tls loc]
    param_body_config [of w K undo grp cs bc e tls loc]
  by (simp add: config_eq_def)

lemma params_loop_mt_calls:
  "use_multi_tensor w \<longrightarrow>
   use_multi_tensor (loop_world (entries_loop K undo grp cs bc es (w, tls, loc))) \<and>
   calls (loop_world (entries_loop K undo grp cs bc es (w, tls, loc))) = calls w"
  by (rule entries_loop_invariant
        [where R = "\<lambda>w w'. use_multi_tensor w \<longrightarrow> use_multi_tensor w' \<and> calls w' = calls w"])
     (auto simp: param_body_mt)

lemma param_update_mt_lists:
  assumes "use_multi_tensor w"
    and "param_update K undo grp cs bc p t out (w, tls, loc) = Inr (w1, tls1, loc1)"
  shows "tl_p tls1 = tl_p tls @ [p] \<and> tl_exp_avg tls1 = tl_exp_avg tls @ [p] \<and>
         tl_exp_avg_sq tls1 = tl_exp_avg_sq tls @ [p]"
  using assms
  by (cases "get_state K w p")
     (auto simp: param_update_def param_kernel_def Let_def tl_append_def split: if_splits)

lemma param_body_mt_lists_entry:
  assumes "use_multi_tensor w"
    and "param_body K undo grp cs bc (p, g, out) (w, tls, loc) = Inr (w1, tls1, loc1)"
  shows "tl_p tls1 = tl_p tls @ (if bearing (p_grad w) (p, g, out) then [p] else []) \<and>
         tl_exp_avg tls1 = tl_exp_avg tls @ (if bearing (p_grad w) (p, g, out) then [p] else []) \<and>
         tl_exp_avg_sq tls1 =
           tl_exp_avg_sq tls @ (if bearing (p_grad w) (p, g, out) then [p] else [])"
proof (cases rule: param_body_cases [of w p g K undo grp cs bc out tls loc])
  case (dense t)
  with assms param_update_mt_lists [of w K undo grp cs bc p t out tls loc w1 tls1 loc1]
  show ?thesis by (simp add: bearing_simp)
qed (use assms in \<open>simp_all add: bearing_simp\<close>)

lemma param_body_mt_lists:
  assumes "use_multi_tensor w"
    and "param_body K undo grp cs bc e (w, tls, loc) = Inr (w1, tls1, loc1)"
  shows "tl_p tls1 = tl_p tls @ map fst (filter (bearing (p_grad w)) [e]) \<and>
         tl_exp_avg tls1 = tl_exp_avg tls @ map fst (filter (bearing (p_grad w)) [e]) \<and>
         tl_exp_avg_sq tls1 = tl_exp_avg_sq tls @ map fst (filter (bearing (p_grad w)) [e])"
  using assms
    param_body_mt_lists_entry [of w K undo grp cs bc "fst e" "fst (snd e)" "snd (snd e)" tls loc]
  by simp

lemma params_loop_mt_lists:
  assumes "use_multi_tensor w"
    and "entries_loop K undo grp cs bc es (w, tls, loc) = Inr (w', tls', loc')"
  shows "tl_p tls' = tl_p tls @ map fst (filter (bearing (p_grad w)) es) \<and>
         tl_exp_avg tls' = tl_exp_avg tls @ map fst (filter (bearing (p_grad w)) es) \<and>
         tl_exp_avg_sq tls' = tl_exp_avg_sq tls @ map fst (filter (bearing (p_grad w)) es)"
  using assms
proof (induction es arbitrary: w tls loc)
  case Nil
  then show ?case by simp
next
  case (Cons e es)
  from Cons.prems(2) obtain w1 tls1 loc1 where
    b: "param_body K undo grp cs bc e (w, tls, loc) = Inr (w1, tls1, loc1)" and
    r: "entries_loop K undo grp cs bc es (w1, tls1, loc1) = Inr (w', tls', loc')"
    by (auto split: sum.splits)
  from param_body_mt [of w K undo grp cs bc e tls loc] Cons.prems(1) b
  have mt1: "use_multi_tensor w1" by simp
  from Cons.IH [OF mt1 r] param_body_mt_lists [OF Cons.prems(1) b] param_body_p_grad [OF b]
  show ?case by simp
qed

lemma mt_call_calls:
  "mt_call K grp cs bc tls (Some (q, beta1, beta2)) w = Inr w' \<Longrightarrow>
   calls w' = calls w @ [AdamMT tls (kernel_scalars grp beta1 beta2 cs (step_of w q) (eps_mode w) bc)]"
  by (auto simp: mt_call_Some mt_written_def mt_scalars_def write_rows_calls dict_step_eq
        split: option.splits)

subsection \<open>Where the sparse gradient error is raised\<close>

lemma sparse_entry_simp:
  "sparse_entry pg (p, g, out) \<longleftrightarrow> (\<exists>t. effective_grad (pg p) g = PTensor t \<and> is_sparse t)"
  by (simp add: sparse_entry_def split: pyobj.splits)

lemma param_body_success_entry:
  assumes "param_body K undo grp cs bc (p, g, out) (w, tls, loc) = Inr s"
  shows "\<not> sparse_entry (p_grad w) (p, g, out)"
proof (cases rule: param_body_cases [of w p g K undo grp cs bc out tls loc])
  case (sparse t)
  with assms show ?thesis by simp
qed (auto simp: sparse_entry_simp)

lemma param_body_success:
  assumes "param_body K undo grp cs bc e (w, tls, loc) = Inr s"
  shows "\<not> sparse_entry (p_grad w) e"
  using assms param_body_success_entry [of K undo grp cs bc "fst e" "fst (snd e)" "snd (snd e)"]
  by simp

lemma params_loop_success:
  assumes "entries_loop K undo grp cs bc es (w, tls, loc) = Inr s"
  shows "\<forall>e \<in> set es. \<not> sparse_entry (p_grad w) e"
  using assms
proof (induction es arbitrary: w tls loc)
  case Nil
  show ?case by simp
next
  case (Cons e es)
  from Cons.prems obtain w1 tls1 loc1 where
    b: "param_body K undo grp cs bc e (w, tls, loc) = Inr (w1, tls1, loc1)" and
    r: "entries_loop K undo grp cs bc es (w1, tls1, loc1) = Inr s"
    by (auto split: sum.splits)
  from Cons.IH [OF r] param_body_p_grad [OF b] param_body_success [OF b]
  show ?case by simp
qed

subsection \<open>A traversal that contains a sparse gradient\<close>



lemma visits_before_sparse_le:
  "visits pg q es = 0 \<Longrightarrow> visits pg q (before_sparse pg es) = 0"
  by (auto simp: visits_zero_iff before_sparse_def dest: set_takeWhileD)






subsection \<open>A traversal that nothing stands in the way of\<close>


lemma no_partial_gens [simp]: "no_partial (w\<lparr>gens := G\<rparr>) = no_partial w"
  by (simp add: no_partial_def)

















subsection \<open>What a raise on a sparse gradient leaves untouched\<close>


subsection \<open>The Input Normalizer\<close>

lemma fill_absent:
  "map (\<lambda>x. fill_none (fst x) (snd x)) (zip gs (replicate (length gs) PNone)) =
   map (\<lambda>grp. PList (replicate (length (params grp)) PNone)) gs"
  by (induction gs) (simp_all add: fill_none_def)

lemma per_group_absent:
  "per_group_structure groups ANone =
     Inr (map (\<lambda>grp. PList (replicate (length (params grp)) PNone)) groups)"
  by (simp add: per_group_structure_def fill_absent)

lemma fill_none_list [simp]: "fill_none grp (PList ys) = PList ys"
  by (simp add: fill_none_def)

lemma fill_none_idem [simp]: "fill_none grp (fill_none grp x) = fill_none grp x"
  by (simp add: fill_none_def)

lemma normalize_flat:
  assumes "xs \<noteq> []" "\<not> is_list (hd xs)"
  shows "normalize_input n (AList xs) = Inr [PList xs]"
    and "normalize_input n (AList [PList xs]) = Inr [PList xs]"
  using assms by (cases xs; simp)+

lemma per_group_flat:
  assumes "xs \<noteq> []" "\<not> is_list (hd xs)"
  shows "per_group_structure groups (AList xs) = Inr (if groups = [] then [] else [PList xs])"
    and "per_group_structure groups (AList [PList xs]) = Inr (if groups = [] then [] else [PList xs])"
  using assms
  by (cases xs; cases groups; simp add: per_group_structure_def)+

lemma per_group_flat_absent:
  assumes "params grp \<noteq> []"
  shows "per_group_structure [grp] (AList (replicate (length (params grp)) PNone)) =
         per_group_structure [grp] ANone"
proof -
  from assms obtain n where n: "length (params grp) = Suc n" by (cases "params grp") auto
  show ?thesis
    by (simp add: per_group_structure_def n fill_none_def)
qed

lemma fill_nested:
  "length ys = length gs \<Longrightarrow>
   map (\<lambda>x. fill_none (fst x) (snd x)) (zip gs (map PList ys)) = map PList ys"
  by (induction gs ys rule: list_induct2') simp_all

lemma per_group_nested:
  assumes "ls \<noteq> []" "length ls = length groups"
  shows "per_group_structure groups (AList (map PList ls)) = Inr (map PList ls)"
proof -
  from assms(1) obtain a list where ls: "ls = a # list" by (cases ls) auto
  have "normalize_input (length groups) (AList (map PList ls)) = Inr (map PList ls)"
    by (simp add: ls)
  with fill_nested [OF assms(2)] show ?thesis
    by (simp add: per_group_structure_def)
qed

lemma group_body_fill:
  "fill_none grp x1 = fill_none grp x2 \<Longrightarrow> fill_none grp o1 = fill_none grp o2 \<Longrightarrow>
   group_body K undo scale outs (grp, x1, o1, gn) s = group_body K undo scale outs (grp, x2, o2, gn) s"
  by (cases s) (simp add: group_body_def cong: sum.case_cong)

lemma group_body_filled:
  "group_body K undo scale outs (grp, x, out, gn) s =
   group_body K undo scale outs (grp, fill_none grp x, fill_none grp out, gn) s"
  by (rule group_body_fill) simp_all

lemma groups_loop_structure:
  assumes "map (\<lambda>x. fill_none (fst x) (snd x)) (zip gs gg1) =
           map (\<lambda>x. fill_none (fst x) (snd x)) (zip gs gg2)"
  shows "groups_loop K undo scale outs (zip gs (zip gg1 rest)) s =
         groups_loop K undo scale outs (zip gs (zip gg2 rest)) s"
  using assms
proof (induction gs arbitrary: gg1 gg2 rest s)
  case Nil
  show ?case by simp
next
  case (Cons g gs)
  show ?case
  proof (cases gg1)
    case Nil
    with Cons.prems have "gg2 = []" by (cases gg2) simp_all
    with Nil show ?thesis by simp
  next
    case c1: (Cons x1 gg1')
    show ?thesis
    proof (cases gg2)
      case Nil
      with Cons.prems c1 show ?thesis by simp
    next
      case c2: (Cons x2 gg2')
      from Cons.prems c1 c2 have h: "fill_none g x1 = fill_none g x2"
        and t: "map (\<lambda>x. fill_none (fst x) (snd x)) (zip gs gg1') =
                map (\<lambda>x. fill_none (fst x) (snd x)) (zip gs gg2')"
        by simp_all
      show ?thesis
      proof (cases rest)
        case Nil
        with c1 c2 show ?thesis by simp
      next
        case (Cons r rest')
        obtain out gn where r: "r = (out, gn)" by (cases r)
        from Cons.IH [OF t, of rest'] group_body_fill [OF h refl, of K undo scale outs out gn s]
        show ?thesis unfolding c1 c2 Cons r by (simp split: sum.splits)
      qed
    qed
  qed
qed

lemma traverse_structure:
  assumes "per_group_structure (param_groups w) grads1 = per_group_structure (param_groups w) grads2"
  shows "traverse K undo w (grads1, outs, scale, gns) = traverse K undo w (grads2, outs, scale, gns)"
proof (cases "normalize_input (length (param_groups w)) grads1")
  case (Inl e1)
  with assms obtain e2 where "normalize_input (length (param_groups w)) grads2 = Inl e2"
    by (cases "normalize_input (length (param_groups w)) grads2")
       (simp_all add: per_group_structure_def)
  with Inl normalize_input_error [OF Inl] normalize_input_error [OF this] show ?thesis
    by (simp add: traverse_def)
next
  case g1: (Inr gg1)
  with assms obtain gg2 where g2: "normalize_input (length (param_groups w)) grads2 = Inr gg2"
    by (cases "normalize_input (length (param_groups w)) grads2")
       (simp_all add: per_group_structure_def)
  from assms g1 g2 have "map (\<lambda>x. fill_none (fst x) (snd x)) (zip (param_groups w) gg1) =
           map (\<lambda>x. fill_none (fst x) (snd x)) (zip (param_groups w) gg2)"
    by (simp add: per_group_structure_def)
  from groups_loop_structure [OF this] g1 g2 show ?thesis
    by (simp add: traverse_def split: sum.splits)
qed

text \<open>The entries of the traversal for an absent input and for a flat list.\<close>

lemma absent_traversal:
  "traversal K w (ANone, ANone, scale, None) =
     concat (map (\<lambda>grp. map (\<lambda>p. (p, PNone, PNone)) (params grp)) (param_groups w))"
  by (simp add: traversal_def normalize_norms_def default_groups_entries)

lemma flat_traversal:
  assumes "param_groups w = [grp]" "xs \<noteq> []" "\<not> is_list (hd xs)"
  shows "traversal K w (AList xs, ANone, scale, None) =
     zip (params grp) (zip xs (replicate (length (params grp)) PNone))"
  using assms
  by (cases xs)
     (simp_all add: traversal_def normalize_norms_def group_entries_def fill_none_def
        zip_entries_lists)

lemma absent_step_of:
  assumes "traverse K False w (ANone, ANone, scale, None) = Inr (w', loc)"
  shows "step_of w' q =
     step_of w q + (if p_grad w q = None then 0
                    else int (count_list (concat (map params (param_groups w))) q))"
  using traverse_step_of [OF assms, of q]
  by (simp add: absent_traversal visits_default)

section \<open>The step orchestrator\<close>



text \<open>
  Claim C8. Whatever the closure, the public \<open>step\<close> returns nothing: when it
  returns, its value is \<open>None\<close>, although the forward pass \<open>_step\<close> computed and
  returned the loss that the closure returned.
\<close>

theorem step_returns_none:
  "(step K w closure grads outs scale gns = Inr (r, w') \<longrightarrow> r = None) \<and>
   (step_internal K w (Some c) grads outs scale gns False = Inr (l, w1) \<longrightarrow>
      (\<exists>loss. fst (c (p_grad w)) = Inr loss \<and> l = Some loss))"
  by (auto simp: step_def step_internal_def prologue_def split: sum.splits prod.splits if_splits)

theorem step_returns_none_witness:
  "step example_backend (example_optimizer False True) example_closure ANone ANone 1 None =
     Inr (None, example_stepped) \<and>
   step_internal example_backend (example_optimizer False True) example_closure ANone ANone 1 None
     False = Inr (Some 42, example_stepped)"
proof -
  have a: "(example_optimizer False True)\<lparr>overflow_buf := 0\<rparr> = example_optimizer False True"
    by (simp add: example_optimizer_def)
  have b: "example_stepped\<lparr>overflow_buf := 0\<rparr> = example_stepped"
    by (simp add: example_optimizer_def example_stepped_def)
  from example_step [of 0] example_forward [of 0]
    step_returns_none [of example_backend "example_optimizer False True" example_closure
      ANone ANone 1 None None example_stepped example_closure_fun "Some 42" example_stepped]
  show ?thesis by (simp add: a b)
qed

section \<open>The overflow accessors\<close>

text \<open>
  Claim C4. On a freshly constructed optimizer both accessors report no overflow.
  \<open>peek_overflow\<close> leaves the optimizer as it is, so repeated calls return the same
  value. \<open>has_overflow\<close> returns the current register and resets it to zero (and
  changes nothing else), so a second \<open>has_overflow\<close> right after it returns zero.
\<close>

theorem overflow_accessors:
  "(init env ps a = Inr w0 \<longrightarrow>
      fst (peek_overflow w0) = 0 \<and> \<not> truthy (fst (peek_overflow w0)) \<and>
      fst (has_overflow w0) = 0 \<and> \<not> truthy (fst (has_overflow w0))) \<and>
   snd (peek_overflow w) = w \<and>
   fst (peek_overflow (snd (peek_overflow w))) = fst (peek_overflow w) \<and>
   fst (peek_overflow w) = overflow_buf w \<and>
   fst (has_overflow w) = overflow_buf w \<and>
   snd (has_overflow w) = w\<lparr>overflow_buf := 0\<rparr> \<and>
   fst (peek_overflow (snd (has_overflow w))) = 0 \<and>
   fst (has_overflow (snd (has_overflow w))) = 0 \<and>
   \<not> truthy (fst (has_overflow (snd (has_overflow w))))"
  by (auto simp: init_def has_overflow_def peek_overflow_def truthy_def Let_def
           split: if_splits sum.splits)

theorem overflow_accessors_witness:
  "init (example_env False) [0, 1]
     (default_args\<lparr>arg_use_mt := False, arg_allow_undo := True\<rparr>) =
     Inr (example_optimizer False True) \<and>
   fst (peek_overflow (example_optimizer False True)) = 0 \<and>
   fst (has_overflow (example_optimizer False True)) = 0 \<and>
   fst (has_overflow ((example_optimizer False True)\<lparr>overflow_buf := 1\<rparr>)) = 1 \<and>
   fst (has_overflow (snd (has_overflow ((example_optimizer False True)\<lparr>overflow_buf := 1\<rparr>)))) = 0"
proof -
  have i: "init (example_env False) [0, 1]
             (default_args\<lparr>arg_use_mt := False, arg_allow_undo := True\<rparr>) =
           Inr (example_optimizer False True)"
    using example_init [where avail = False and mt = False and undo = True] by simp
  from i overflow_accessors [of "example_env False" "[0, 1]"
          "default_args\<lparr>arg_use_mt := False, arg_allow_undo := True\<rparr>"
          "example_optimizer False True" "(example_optimizer False True)\<lparr>overflow_buf := 1\<rparr>"]
  show ?thesis by (simp add: has_overflow_def)
qed

section \<open>The combined scale\<close>

text \<open>
  Claim C2. The combined scale of a group is the base scale when \<open>max_grad_norm\<close> is
  not positive. Otherwise, whenever it is computed, with
  \<open>clip = ((grad_norm / scale) + 1e-6) / max_grad_norm\<close> it is \<open>clip * scale\<close> when
  \<open>clip > 1\<close> and the base scale when \<open>clip \<le> 1\<close>; it is computed whenever a norm is
  supplied and the scale is not zero.
\<close>

theorem combined_scale_spec:
  "(max_norm \<le> 0 \<longrightarrow> combined_scale max_norm scale grad_norm = Inr scale) \<and>
   (0 < max_norm \<longrightarrow> combined_scale max_norm scale grad_norm = Inr c \<longrightarrow>
      (\<exists>gn. grad_norm = Some gn \<and> scale \<noteq> 0 \<and>
         (let clip = ((gn / scale) + 1 / 1000000) / max_norm in
            (1 < clip \<longrightarrow> c = clip * scale) \<and> (clip \<le> 1 \<longrightarrow> c = scale)))) \<and>
   (0 < max_norm \<longrightarrow> scale \<noteq> 0 \<longrightarrow>
      (\<exists>c'. combined_scale max_norm scale (Some gn') = Inr c'))"
  by (auto simp: combined_scale_def Let_def split: option.splits if_splits)

theorem combined_scale_spec_witness:
  "combined_scale 0 128 None = Inr 128 \<and>
   (0::real) < 2 \<and> combined_scale 2 128 (Some 1024) = Inr (8000001 / 2000000 * 128) \<and>
   combined_scale 2 128 (Some 64) = Inr 128"
proof -
  have a: "combined_scale 2 128 (Some 1024) = Inr (8000001 / 2000000 * 128)"
    by (simp add: combined_scale_def Let_def)
  have b: "combined_scale 2 128 (Some 64) = Inr 128"
    by (simp add: combined_scale_def Let_def)
  from combined_scale_spec [of 0 128 None 128 0]
       combined_scale_spec [of 2 128 "Some 1024" "8000001 / 2000000 * 128" 1024]
       combined_scale_spec [of 2 128 "Some 64" 128 64] a b
  show ?thesis by simp
qed

section \<open>Construction: batched mode and undo\<close>

text \<open>
  The claim C6 as stated fails: with multi tensor apply requested but unavailable,
  construction falls back to per-parameter mode and succeeds with undo enabled.
\<close>

theorem init_mt_undo_counterexample:
  "arg_use_mt (default_args\<lparr>arg_use_mt := True, arg_allow_undo := True\<rparr>) \<and>
   arg_allow_undo (default_args\<lparr>arg_use_mt := True, arg_allow_undo := True\<rparr>) \<and>
   init (example_env False) [0, 1] (default_args\<lparr>arg_use_mt := True, arg_allow_undo := True\<rparr>) =
     Inr (example_optimizer False True)"
  using example_init [where avail = False and mt = True and undo = True] by simp

text \<open>
  Claim C6, amended. When batched mode and undo are both requested and multi tensor
  apply is available, construction fails; it fails with the assertion on the two flags
  unless an earlier check of the constructor has already failed. On every constructed
  instance batched mode and undo are not both active: batched mode is active exactly
  when it was requested and is available, undo exactly when it was requested. When
  both are requested and multi tensor apply is not available, construction succeeds
  in per-parameter mode with undo enabled, provided the other checks of the
  constructor pass.
\<close>

theorem init_mt_undo_exclusive:
  "(arg_use_mt a \<and> arg_allow_undo a \<and> mt_available env \<longrightarrow>
      (\<exists>e. init env ps a = Inl e)) \<and>
   (arg_use_mt a \<and> arg_allow_undo a \<and> mt_available env \<and> kernel_importable env \<and>
    \<not> arg_amsgrad a \<and> optimizer_init env ps
        \<lparr>lr = arg_lr a, bias_correction = arg_bias_correction a, betas = arg_betas a,
         eps = arg_eps a, weight_decay = arg_weight_decay a,
         max_grad_norm = arg_max_grad_norm a\<rparr> = Inr groups \<longrightarrow>
      init env ps a = Inl (AssertionError undo_mt_msg)) \<and>
   (init env ps a = Inr w \<longrightarrow>
      \<not> (use_multi_tensor w \<and> allow_undo w) \<and>
      use_multi_tensor w = (arg_use_mt a \<and> mt_available env) \<and>
      allow_undo w = arg_allow_undo a) \<and>
   (arg_use_mt a \<and> arg_allow_undo a \<and> \<not> mt_available env \<and> kernel_importable env \<and>
    \<not> arg_amsgrad a \<and> optimizer_init env ps
        \<lparr>lr = arg_lr a, bias_correction = arg_bias_correction a, betas = arg_betas a,
         eps = arg_eps a, weight_decay = arg_weight_decay a,
         max_grad_norm = arg_max_grad_norm a\<rparr> = Inr groups \<longrightarrow>
      (\<exists>w'. init env ps a = Inr w' \<and> \<not> use_multi_tensor w' \<and> allow_undo w' \<and>
            param_groups w' = groups))"
  by (auto simp: init_def Let_def split: if_splits sum.splits)

theorem init_mt_undo_exclusive_witness:
  "arg_use_mt (default_args\<lparr>arg_use_mt := True, arg_allow_undo := True\<rparr>) \<and>
   arg_allow_undo (default_args\<lparr>arg_use_mt := True, arg_allow_undo := True\<rparr>) \<and>
   mt_available (example_env True) \<and>
   init (example_env True) [0, 1] (default_args\<lparr>arg_use_mt := True, arg_allow_undo := True\<rparr>) =
     Inl (AssertionError undo_mt_msg) \<and>
   init (example_env True) [0, 1] (default_args\<lparr>arg_use_mt := True, arg_allow_undo := False\<rparr>) =
     Inr (example_optimizer True False) \<and>
   \<not> (use_multi_tensor (example_optimizer True False) \<and> allow_undo (example_optimizer True False))"
proof -
  have a: "init (example_env True) [0, 1]
             (default_args\<lparr>arg_use_mt := True, arg_allow_undo := True\<rparr>) =
           Inl (AssertionError undo_mt_msg)"
    using example_init [where avail = True and mt = True and undo = True] by simp
  have b: "init (example_env True) [0, 1]
             (default_args\<lparr>arg_use_mt := True, arg_allow_undo := False\<rparr>) =
           Inr (example_optimizer True False)"
    using example_init [where avail = True and mt = True and undo = False] by simp
  have c: "mt_available (example_env True)"
    by (simp add: example_env_def)
  from a b c
    init_mt_undo_exclusive [of "default_args\<lparr>arg_use_mt := True, arg_allow_undo := True\<rparr>"
      "example_env True" "[0, 1]" undefined undefined]
    init_mt_undo_exclusive [of "default_args\<lparr>arg_use_mt := True, arg_allow_undo := False\<rparr>"
      "example_env True" "[0, 1]" undefined "example_optimizer True False"]
  show ?thesis by simp
qed

section \<open>Skipped parameters\<close>

text \<open>
  Claim C10. A parameter \<open>q\<close> whose attached gradient is absent and whose supplied
  gradient is absent wherever the call meets it is skipped: by \<open>step\<close>, and by
  either pass of \<open>_step\<close>, whether the call returns or raises. Its entry of \<open>state\<close> is
  the same as before (no state is created, the step counter and both moment buffers are
  unchanged), its data is unchanged, and no kernel invocation issued by the call
  mentions it. The attached gradients are read in the state \<open>w'\<close> the call leaves: the
  closure assigns them before the loop, and nothing assigns them after it. The entries
  \<open>step\<close> meets are those of its forward pass and of the reverse pass, if it runs; when
  the arguments hold no generator they are the entries of the forward pass.
\<close>

theorem skipped_parameter_untouched:
  "((w' = final_world (step K w closure grads outs scale gns) \<and>
     (\<forall>e \<in> set (step_entries K w closure grads outs scale gns).
        fst e = q \<longrightarrow> fst (snd e) = PNone) \<or>
     w' = final_world (step_internal K w closure grads outs scale gns undo) \<and>
     (\<forall>e \<in> set (step_traversal K w grads outs scale gns).
        fst e = q \<longrightarrow> fst (snd e) = PNone)) \<and>
    p_grad w' q = None \<longrightarrow>
      untouched q w w' \<and> state w' q = state w q \<and> step_of w' q = step_of w q \<and>
      p_data w' q = p_data w q \<and> \<not> list_ex (mentions q) (issued w w')) \<and>
   (gen_free w grads outs \<longrightarrow>
      set (step_entries K w closure grads outs scale gns) =
      set (step_traversal K w grads outs scale gns))"
proof (intro conjI impI)
  assume h: "(w' = final_world (step K w closure grads outs scale gns) \<and>
     (\<forall>e \<in> set (step_entries K w closure grads outs scale gns).
        fst e = q \<longrightarrow> fst (snd e) = PNone) \<or>
     w' = final_world (step_internal K w closure grads outs scale gns undo) \<and>
     (\<forall>e \<in> set (step_traversal K w grads outs scale gns).
        fst e = q \<longrightarrow> fst (snd e) = PNone)) \<and>
    p_grad w' q = None"
  then have pg: "p_grad w' q = None" by simp
  from h have u: "untouched q w w'"
  proof (elim conjE disjE)
    assume w': "w' = final_world (step K w closure grads outs scale gns)"
      and sup: "\<forall>e \<in> set (step_entries K w closure grads outs scale gns).
        fst e = q \<longrightarrow> fst (snd e) = PNone"
    from pg sup have "visits (p_grad w') q (step_entries K w closure grads outs scale gns) = 0"
      by (rule absent_not_bearing)
    with w' step_untouched [of K w closure grads outs scale gns q] show ?thesis by simp
  next
    assume w': "w' = final_world (step_internal K w closure grads outs scale gns undo)"
      and sup: "\<forall>e \<in> set (step_traversal K w grads outs scale gns).
        fst e = q \<longrightarrow> fst (snd e) = PNone"
    from pg sup have "visits (p_grad w') q (step_traversal K w grads outs scale gns) = 0"
      by (rule absent_not_bearing)
    with w' step_internal_untouched [of K w closure grads outs scale gns undo q]
    show ?thesis by simp
  qed
  from u show "untouched q w w'" .
  from u show "state w' q = state w q" by (simp add: untouched_def)
  from u show "step_of w' q = step_of w q" by (simp add: untouched_def step_of_def)
  from u show "p_data w' q = p_data w q" by (simp add: untouched_def)
  from u show "\<not> list_ex (mentions q) (issued w w')" by (simp add: untouched_def)
next
  assume gf: "gen_free w grads outs"
  let ?w0 = "w\<lparr>overflow_buf := 0\<rparr>"
  have "step_traversal K w1 grads outs scale gns = step_traversal K w grads outs scale gns"
    if "step_internal K ?w0 closure grads outs scale gns False = Inr (loss, w1)" for loss w1
  proof -
    from step_internal_flags [of ?w0 K closure grads outs scale gns False] that
    have "flags_eq ?w0 w1" by simp
    then have "flags_eq w w1" by (simp add: flags_eq_def)
    from step_traversal_no_gen [OF gf this] show ?thesis .
  qed
  note eq = this
  show "set (step_entries K w closure grads outs scale gns) =
      set (step_traversal K w grads outs scale gns)"
  proof (cases "step_internal K ?w0 closure grads outs scale gns False")
    case (Inl x)
    then show ?thesis by (simp add: step_entries_def)
  next
    case (Inr y)
    obtain loss w1 where y: "y = (loss, w1)" by (cases y)
    from eq [OF Inr [unfolded y]] Inr y show ?thesis by (auto simp: step_entries_def)
  qed
qed

theorem skipped_parameter_untouched_witness:
  "example_stepped = final_world
     (step example_backend (example_optimizer False True) example_closure ANone ANone 1 None) \<and>
   p_grad example_stepped 1 = None \<and>
   gen_free (example_optimizer False True) ANone ANone \<and>
   step_traversal example_backend (example_optimizer False True) ANone ANone 1 None =
     [(0, PNone, PNone), (1, PNone, PNone)] \<and>
   untouched 1 (example_optimizer False True) example_stepped \<and>
   state example_stepped 1 = None"
proof -
  have a: "example_stepped = final_world
     (step example_backend (example_optimizer False True) example_closure ANone ANone 1 None)"
    using example_step [of 0] by (simp add: example_optimizer_def)
  have b: "p_grad example_stepped 1 = None"
    by (simp add: example_stepped_def)
  have c: "state (example_optimizer False True) 1 = None"
    by (simp add: example_optimizer_def)
  have d: "gen_free (example_optimizer False True) ANone ANone"
    by (simp add: gen_free_def example_optimizer_def)
  from a b c d example_traversal
    skipped_parameter_untouched [where w' = example_stepped and K = example_backend
      and w = "example_optimizer False True" and closure = example_closure
      and grads = ANone and outs = ANone and scale = 1 and gns = None and undo = False and q = 1]
  show ?thesis by simp
qed

section \<open>Step counters\<close>

text \<open>
  The claim C3 as stated fails. A parameter listed twice in its group has its counter
  advanced by 2 in one \<open>step\<close>. A parameter with an attached gradient whose group the
  traversal never reaches (a flat list of gradients stands for one group, and \<open>zip\<close>
  stops after it) keeps its counter. And when the gradients come from a generator, the
  reverse pass of the same \<open>step\<close> finds it exhausted and takes nothing off: the counter
  stays advanced although the overflow register is set.
\<close>

theorem step_counter_counterexample:
  "p_grad example_twice 0 \<noteq> None \<and>
   step_of example_twice 0 = 0 \<and>
   step example_backend example_twice (None :: (int, int, int) closure) ANone ANone 1 None =
     Inr (None, example_twice_stepped) \<and>
   step_of example_twice_stepped 0 = 2 \<and>
   p_grad example_two_groups 1 \<noteq> None \<and>
   step_of example_two_groups 1 = 0 \<and>
   step example_backend example_two_groups (None :: (int, int, int) closure)
     (AList [PTensor (Tensor False 5)]) ANone 1 None = Inr (None, example_two_groups_stepped) \<and>
   step_of example_two_groups_stepped 1 = 0 \<and>
   allow_undo example_gen \<and>
   step_of example_gen 0 = 0 \<and>
   step example_backend example_gen (None :: (int, int, int) closure) (AGen 0) ANone 1 None =
     Inr (None, example_gen_stepped) \<and>
   truthy (fst (peek_overflow example_gen_stepped)) \<and>
   step_of example_gen_stepped 0 = 1"
proof -
  have a: "step example_backend example_twice (None :: (int, int, int) closure) ANone ANone 1 None =
     Inr (None, example_twice_stepped)"
    by (simp add: step_def example_eval example_twice_def example_twice_stepped_def
          peek_overflow_def truthy_def)
  have b: "step example_backend example_two_groups (None :: (int, int, int) closure)
     (AList [PTensor (Tensor False 5)]) ANone 1 None = Inr (None, example_two_groups_stepped)"
    by (simp add: step_def example_eval example_two_groups_def example_two_groups_stepped_def
          peek_overflow_def truthy_def)
  have c: "step example_backend example_gen (None :: (int, int, int) closure) (AGen 0) ANone 1 None =
     Inr (None, example_gen_stepped)"
    by (simp add: step_def example_eval example_gen_def example_gen_stepped_def
          peek_overflow_def truthy_def fun_upd_idem_iff)
  have d: "p_grad example_twice 0 \<noteq> None" "step_of example_twice 0 = 0"
    "step_of example_twice_stepped 0 = 2" "p_grad example_two_groups 1 \<noteq> None"
    "step_of example_two_groups 1 = 0" "step_of example_two_groups_stepped 1 = 0"
    "allow_undo example_gen" "step_of example_gen 0 = 0"
    "truthy (fst (peek_overflow example_gen_stepped))" "step_of example_gen_stepped 0 = 1"
    by (simp_all add: example_twice_def example_twice_stepped_def example_two_groups_def
          example_two_groups_stepped_def example_gen_def example_gen_stepped_def
          example_optimizer_def step_of_def peek_overflow_def truthy_def)
  from a b c d show ?thesis by simp
qed

text \<open>
  Claim C3, amended. When the forward pass returns, the step counter of every
  parameter has grown by the number of times the traversal met it with a gradient: by
  exactly 1 for a parameter met once, in particular, in a call without supplied
  arguments and without a stash, for a parameter with an attached gradient that
  occurs once in the parameter groups. A reverse pass that returns takes off the
  number of times its own traversal meets the parameter with a gradient; when the
  arguments hold no generator, that is the same number, and the value before the step
  is restored. Across a forward pass, returning or raising, no step counter decreases.
  Without generators a returning \<open>step\<close> has either advanced the counters in this way,
  or (with undo enabled) restored them.
\<close>

theorem step_counter_forward_undo:
  "(step_internal K w closure grads outs scale gns False = Inr (l, w1) \<longrightarrow>
      step_of w1 q =
        step_of w q + int (visits (p_grad w1) q (step_traversal K w grads outs scale gns)) \<and>
      (visits (p_grad w1) q (step_traversal K w grads outs scale gns) = 1 \<longrightarrow>
         step_of w1 q = step_of w q + 1) \<and>
      (amp_stash w = None \<and> grads = ANone \<and> outs = ANone \<and> gns = None \<and> p_grad w1 q \<noteq> None \<and>
       count_list (concat (map params (param_groups w))) q = 1 \<longrightarrow>
         step_of w1 q = step_of w q + 1) \<and>
      (step_internal K w1 closure grads outs scale gns True = Inr (l', w2) \<longrightarrow>
         step_of w2 q =
           step_of w1 q - int (visits (p_grad w1) q (step_traversal K w1 grads outs scale gns)) \<and>
         (gen_free w grads outs \<longrightarrow> step_of w2 q = step_of w q))) \<and>
   step_of w q \<le> step_of (final_world (step_internal K w closure grads outs scale gns False)) q \<and>
   (step K w closure grads outs scale gns = Inr (r, w') \<and> gen_free w grads outs \<longrightarrow>
      step_of w' q =
        step_of w q + int (visits (p_grad w') q (step_traversal K w grads outs scale gns)) \<or>
      allow_undo w \<and> step_of w' q = step_of w q)"
proof (intro conjI impI)
  assume f: "step_internal K w closure grads outs scale gns False = Inr (l, w1)"
  show fw: "step_of w1 q =
        step_of w q + int (visits (p_grad w1) q (step_traversal K w grads outs scale gns))"
    using step_internal_step_of [OF f, of q] by simp
  show "step_of w1 q = step_of w q + 1"
    if "visits (p_grad w1) q (step_traversal K w grads outs scale gns) = 1"
    using fw that by simp
  show "step_of w1 q = step_of w q + 1"
    if "amp_stash w = None \<and> grads = ANone \<and> outs = ANone \<and> gns = None \<and> p_grad w1 q \<noteq> None \<and>
       count_list (concat (map params (param_groups w))) q = 1"
    using fw that by (auto simp: default_traversal visits_default)
  from step_internal_flags [of w K closure grads outs scale gns False] f
  have fl: "flags_eq w w1" by simp
  {
    assume u: "step_internal K w1 closure grads outs scale gns True = Inr (l', w2)"
    from step_internal_undo_p_grad [of K w1 closure grads outs scale gns] u
    have "p_grad w2 = p_grad w1" by simp
    with step_internal_step_of [OF u, of q]
    show un: "step_of w2 q =
           step_of w1 q - int (visits (p_grad w1) q (step_traversal K w1 grads outs scale gns))"
      by simp
    assume gf: "gen_free w grads outs"
    from step_traversal_no_gen [OF gf fl, of K scale gns] un fw
    show "step_of w2 q = step_of w q" by simp
  }
next
  show "step_of w q \<le> step_of (final_world (step_internal K w closure grads outs scale gns False)) q"
    by (rule step_internal_mono)
next
  assume "step K w closure grads outs scale gns = Inr (r, w') \<and> gen_free w grads outs"
  then have s: "step K w closure grads outs scale gns = Inr (r, w')"
    and gf: "gen_free w grads outs" by simp_all
  let ?w0 = "w\<lparr>overflow_buf := 0\<rparr>"
  have t0: "step_traversal K ?w0 grads outs scale gns = step_traversal K w grads outs scale gns"
    by (rule step_traversal_cong) (simp_all add: flags_eq_def)
  have s0: "step_of ?w0 q = step_of w q" by (simp add: step_of_def)
  show "step_of w' q =
        step_of w q + int (visits (p_grad w') q (step_traversal K w grads outs scale gns)) \<or>
      allow_undo w \<and> step_of w' q = step_of w q"
  proof (cases rule: step_cases [of K w closure grads outs scale gns])
    case (fail x)
    with s show ?thesis by simp
  next
    case (no_undo loss w1)
    with s have "w1 = w'" by simp
    with step_internal_step_of [OF no_undo(1), of q] t0 s0 show ?thesis by simp
  next
    case (undo loss w1)
    from s undo(5) obtain r2 where
      u: "step_internal K w1 closure grads outs scale gns True = Inr (r2, w')"
      by (auto split: sum.splits)
    from step_internal_flags [of ?w0 K closure grads outs scale gns False] undo(1)
    have "flags_eq ?w0 w1" by simp
    then have "flags_eq w w1" by (simp add: flags_eq_def)
    from step_traversal_no_gen [OF gf this, of K scale gns]
    have t1: "step_traversal K w1 grads outs scale gns = step_traversal K w grads outs scale gns" .
    from step_internal_undo_p_grad [of K w1 closure grads outs scale gns] u
    have "p_grad w' = p_grad w1" by simp
    with step_internal_step_of [OF u, of q] step_internal_step_of [OF undo(1), of q] t0 t1 s0
    have "step_of w' q = step_of w q" by simp
    with undo(2) show ?thesis by simp
  qed
qed

theorem step_counter_forward_undo_witness:
  "step_internal example_backend (example_optimizer False True) example_closure ANone ANone 1 None
     False = Inr (Some 42, example_stepped) \<and>
   visits (p_grad example_stepped) 0
     (step_traversal example_backend (example_optimizer False True) ANone ANone 1 None) = 1 \<and>
   amp_stash (example_optimizer False True) = None \<and>
   p_grad example_stepped 0 \<noteq> None \<and>
   count_list (concat (map params (param_groups (example_optimizer False True)))) 0 = 1 \<and>
   gen_free (example_optimizer False True) ANone ANone \<and>
   step_internal example_backend example_stepped example_closure ANone ANone 1 None True =
     Inr (None, example_undone) \<and>
   step example_backend (example_optimizer False True) example_overflow_closure ANone ANone 1 None =
     Inr (None, example_rolled_back) \<and>
   step_of (example_optimizer False True) 0 = 0 \<and>
   step_of example_stepped 0 = 1 \<and>
   step_of example_undone 0 = 0 \<and>
   step_of example_rolled_back 0 = 0"
proof -
  have ex0: "(example_optimizer False True)\<lparr>overflow_buf := 0\<rparr> = example_optimizer False True"
    by (simp add: example_optimizer_def)
  have ex1: "example_stepped\<lparr>overflow_buf := 0\<rparr> = example_stepped"
    by (simp add: example_optimizer_def example_stepped_def)
  have ex2: "example_undone\<lparr>overflow_buf := 0\<rparr> = example_undone"
    by (simp add: example_optimizer_def example_stepped_def example_undone_def)
  have a: "step_internal example_backend (example_optimizer False True) example_closure
             ANone ANone 1 None False = Inr (Some 42, example_stepped)"
    using example_forward [of 0] by (simp add: ex0 ex1)
  have b: "step_internal example_backend example_stepped example_closure ANone ANone 1 None True =
             Inr (None, example_undone)"
    using example_undo [of 0] by (simp add: ex1 ex2)
  have c: "visits (p_grad example_stepped) 0
             (step_traversal example_backend (example_optimizer False True) ANone ANone 1 None) = 1"
    by (simp add: example_traversal visits_def bearing_def example_stepped_def)
  have d: "amp_stash (example_optimizer False True) = None"
    "p_grad example_stepped 0 \<noteq> None"
    "count_list (concat (map params (param_groups (example_optimizer False True)))) 0 = 1"
    "step_of (example_optimizer False True) 0 = 0"
    "step_of example_rolled_back 0 = 0"
    "gen_free (example_optimizer False True) ANone ANone"
    by (simp_all add: example_optimizer_def example_stepped_def example_group_def step_of_def
          example_rolled_back_def example_overflowed_def gen_free_def)
  from a b c d example_overflow_step
    step_counter_forward_undo [where K = example_backend and w = "example_optimizer False True"
      and closure = example_closure and grads = ANone and outs = ANone and scale = 1
      and gns = None and l = "Some 42" and ?w1.0 = example_stepped and q = 0 and l' = None
      and ?w2.0 = example_undone and r = None and w' = example_stepped]
  show ?thesis by simp
qed

section \<open>The step value of the batched invocation\<close>

lemma params_loop_no_bearing:
  "last_bearing (p_grad w) es = None \<Longrightarrow>
   entries_loop K undo grp cs bc es (w, tls, loc) = Inr (w, tls, loc)"
proof (induction es)
  case Nil
  show ?case by simp
next
  case (Cons e es)
  from Cons.prems have a: "\<not> bearing (p_grad w) e" and b: "last_bearing (p_grad w) es = None"
    by (auto simp: last_bearing_Cons split: option.splits if_splits)
  from a have "param_body K undo grp cs bc e (w, tls, loc) = Inr (w, tls, loc)"
    using param_body_skip [of w "fst e" "fst (snd e)" K undo grp cs bc "snd (snd e)" tls loc]
    by (simp add: bearing_def)
  with Cons.IH [OF b] show ?case by simp
qed

lemma example_batched_step:
  "group_body example_backend False 1 ANone (example_group, PNone, PNone, None)
     (example_batched, None) =
   Inr (example_batched_stepped, Some (1, 9 / 10, 999 / 1000))"
  by (simp add: example_eval example_batched_def example_batched_stepped_def
        example_batched_lists_def fun_upd_twist)

lemma example_batched_entries:
  "group_entries example_backend G (example_group, PNone, PNone, None :: real option) =
     [(0, PNone, PNone), (1, PNone, PNone)]"
  by (simp add: default_group_entries example_group_def)

lemma combined_scale_error:
  "combined_scale m scale gn = Inl err \<Longrightarrow> err = TypeError \<or> err = ZeroDivisionError"
  by (auto simp: combined_scale_def Let_def split: if_splits option.splits)

lemma iter_of_error: "iter_of K x = Inl err \<Longrightarrow> err = TypeError"
  by (cases x) (auto split: option.splits)

lemma not_iterable: "\<not> iterable K x \<Longrightarrow> iter_of K x = Inl TypeError"
  by (cases "iter_of K x") (auto simp: iterable_def dest: iter_of_error)

lemma example_unbound:
  "group_body example_backend False 1 ANone (example_group, PNone, PNone, None)
     (example_optimizer True False, None) =
   Inl (UnboundLocalError, example_optimizer True False)"
  by (simp add: example_eval)

text \<open>
  Claim C9. In batched mode a group step that returns has issued exactly one
  invocation, the batched one, and its single step value is the step counter of the
  last gradient-bearing parameter the loop iterated in the group (the counter as the
  loop left it), whatever the counters of the other parameters are. When no
  parameter of the group carried a gradient, the value is not defined by this group:
  it is the counter of the parameter that the local \<open>state\<close> still refers to from an
  earlier group, and when there is none the group step raises (\<open>UnboundLocalError\<close>
  once the scale and the two lists are in order) and returns nothing; nothing but the
  generators that the loop has drawn from has changed by then. The batched invocation
  receives the tensors of all gradient-bearing parameters of the group, in the order
  of the loop.
\<close>

theorem batched_step_value:
  "(use_multi_tensor w \<and>
    group_body K undo scale outs (grp, gtg, otg, gn) (w, loc) = Inr (w', loc') \<longrightarrow>
      (\<exists>tls sc. calls w' = calls w @ [AdamMT tls sc] \<and>
         tl_p tls = map fst (filter (bearing (p_grad w))
                       (group_entries K (gens w) (grp, gtg, otg, gn))) \<and>
         tl_exp_avg tls = tl_p tls \<and> tl_exp_avg_sq tls = tl_p tls \<and>
         (case last_bearing (p_grad w) (group_entries K (gens w) (grp, gtg, otg, gn)) of
            Some p \<Rightarrow>
              k_step sc = step_of w' p \<and>
              loc' = Some (p, fst (betas grp), snd (betas grp))
          | None \<Rightarrow>
              loc' = loc \<and>
              (\<exists>q beta1 beta2. loc = Some (q, beta1, beta2) \<and>
                 k_step sc = step_of w q \<and> step_of w' q = step_of w q)))) \<and>
   (use_multi_tensor w \<and>
    last_bearing (p_grad w) (group_entries K (gens w) (grp, gtg, otg, gn)) = None \<and>
    loc = None \<longrightarrow>
      (\<exists>err. group_body K undo scale outs (grp, gtg, otg, gn) (w, loc) =
                Inl (err, if err = UnboundLocalError
                          then w\<lparr>gens := group_store K (gens w) (grp, gtg, otg, gn)\<rparr> else w) \<and>
         (err = UnboundLocalError \<or> err = TypeError \<or> err = ZeroDivisionError) \<and>
         (combined_scale (max_grad_norm grp) scale gn \<noteq> Inl err \<and>
          iter_of K (fill_none grp gtg) \<noteq> Inl err \<and> iter_of K (fill_none grp otg) \<noteq> Inl err \<longrightarrow>
            err = UnboundLocalError))) \<and>
   (\<not> is_gen gtg \<and> \<not> is_gen otg \<longrightarrow>
      w\<lparr>gens := group_store K (gens w) (grp, gtg, otg, gn)\<rparr> = w)"
proof (intro conjI impI; (elim conjE)?)
  assume mt: "use_multi_tensor w"
    and ok: "group_body K undo scale outs (grp, gtg, otg, gn) (w, loc) = Inr (w', loc')"
  let ?es = "group_entries K (gens w) (grp, gtg, otg, gn)"
  let ?G = "group_store K (gens w) (grp, gtg, otg, gn)"
  let ?bc = "if bias_correction grp then 1 else 0 :: nat"
  show "\<exists>tls sc. calls w' = calls w @ [AdamMT tls sc] \<and>
         tl_p tls = map fst (filter (bearing (p_grad w)) ?es) \<and>
         tl_exp_avg tls = tl_p tls \<and> tl_exp_avg_sq tls = tl_p tls \<and>
         (case last_bearing (p_grad w) ?es of
            Some p \<Rightarrow>
              k_step sc = step_of w' p \<and>
              loc' = Some (p, fst (betas grp), snd (betas grp))
          | None \<Rightarrow>
              loc' = loc \<and>
              (\<exists>q beta1 beta2. loc = Some (q, beta1, beta2) \<and>
                 k_step sc = step_of w q \<and> step_of w' q = step_of w q))"
  proof (cases rule: group_body_cases [of grp scale gn K undo outs gtg otg w loc])
    case (scale_err err)
    with ok show ?thesis by simp
  next
    case (iter_err cs)
    with ok show ?thesis by simp
  next
    case (loop_err cs err wx G)
    with ok show ?thesis by simp
  next
    case (no_mt cs w1 tls1 loc1)
    with params_loop_mt_calls [of w K undo grp cs ?bc ?es "new_tensorlists outs" loc] mt
    show ?thesis by simp
  next
    case (mt_err cs w1 tls1 loc1 x)
    with ok show ?thesis by simp
  next
    case (mt_ok cs w1 tls1 loc1 w2)
    from mt_ok(5) ok have w2: "w2 = w'" and l1: "loc1 = loc'" by simp_all
    from params_loop_mt_calls [of w K undo grp cs ?bc ?es "new_tensorlists outs" loc] mt mt_ok(2)
    have c1: "calls w1 = calls w" by simp
    note lc = params_loop_loc [OF mt_ok(2)]
    from mt_ok(4) obtain q beta1 beta2 where loc1: "loc1 = Some (q, beta1, beta2)"
      by (cases loc1) (auto simp: mt_call_None)
    note cl = mt_call_calls [OF mt_ok(4) [unfolded loc1]]
    from mt_call_step_of [of K grp cs ?bc tls1 loc1 "w1\<lparr>gens := ?G\<rparr>"] mt_ok(4)
    have st: "step_of w2 p = step_of w1 p" for p by simp
    from params_loop_mt_lists [OF mt mt_ok(2)]
    have ls: "tl_p tls1 = map fst (filter (bearing (p_grad w)) ?es)"
      "tl_exp_avg tls1 = tl_p tls1" "tl_exp_avg_sq tls1 = tl_p tls1"
      by (simp_all add: new_tensorlists_def)
    show ?thesis
    proof (cases "last_bearing (p_grad w) ?es")
      case None
      with lc loc1 have "loc = Some (q, beta1, beta2)" by simp
      moreover from None mt_ok(2)
        params_loop_no_bearing [of w ?es K undo grp cs ?bc "new_tensorlists outs" loc]
      have "w1 = w" by simp
      ultimately show ?thesis using None cl st [of q] lc l1 loc1 w2 c1 ls
        by (auto simp: kernel_scalars_def)
    next
      case (Some p)
      with lc loc1 have "q = p" by simp
      with Some cl st [of q] lc l1 loc1 w2 c1 ls show ?thesis
        by (auto simp: kernel_scalars_def)
    qed
  qed
next
  assume mt: "use_multi_tensor w"
    and nb: "last_bearing (p_grad w) (group_entries K (gens w) (grp, gtg, otg, gn)) = None"
    and ln: "loc = None"
  let ?es = "group_entries K (gens w) (grp, gtg, otg, gn)"
  let ?G = "group_store K (gens w) (grp, gtg, otg, gn)"
  let ?bc = "if bias_correction grp then 1 else 0 :: nat"
  note nl = params_loop_no_bearing [OF nb, of K undo grp _ ?bc "new_tensorlists outs" loc]
  show "\<exists>err. group_body K undo scale outs (grp, gtg, otg, gn) (w, loc) =
                Inl (err, if err = UnboundLocalError then w\<lparr>gens := ?G\<rparr> else w) \<and>
         (err = UnboundLocalError \<or> err = TypeError \<or> err = ZeroDivisionError) \<and>
         (combined_scale (max_grad_norm grp) scale gn \<noteq> Inl err \<and>
          iter_of K (fill_none grp gtg) \<noteq> Inl err \<and> iter_of K (fill_none grp otg) \<noteq> Inl err \<longrightarrow>
            err = UnboundLocalError)"
  proof (cases rule: group_body_cases [of grp scale gn K undo outs gtg otg w loc])
    case (scale_err err)
    with combined_scale_error [OF scale_err(1)] show ?thesis by auto
  next
    case (iter_err cs)
    from iter_err(4) have "iter_of K (fill_none grp gtg) = Inl TypeError \<or>
        iter_of K (fill_none grp otg) = Inl TypeError"
      by (auto dest: not_iterable)
    with iter_err(3) show ?thesis by auto
  next
    case (loop_err cs err wx G)
    with nl [of cs] show ?thesis by simp
  next
    case (no_mt cs w1 tls1 loc1)
    with nl [of cs] mt show ?thesis by simp
  next
    case (mt_err cs w1 tls1 loc1 x)
    with nl [of cs] ln have "w1 = w" "loc1 = None" by simp_all
    with mt_err(4) have "x = (UnboundLocalError, w\<lparr>gens := ?G\<rparr>)" by (simp add: mt_call_None)
    with mt_err(5) show ?thesis by (intro exI [of _ UnboundLocalError]) simp
  next
    case (mt_ok cs w1 tls1 loc1 w2)
    with nl [of cs] ln have "loc1 = None" by simp
    with mt_ok(4) show ?thesis by (simp add: mt_call_None)
  qed
next
  assume "\<not> is_gen gtg" "\<not> is_gen otg"
  then have "group_store K (gens w) (grp, gtg, otg, gn) = gens w"
    using group_entries_no_gen [of gtg otg K "gens w" grp gn] by simp
  then show "w\<lparr>gens := group_store K (gens w) (grp, gtg, otg, gn)\<rparr> = w" by simp
qed

theorem batched_step_value_witness:
  "use_multi_tensor example_batched \<and>
   group_body example_backend False 1 ANone (example_group, PNone, PNone, None)
     (example_batched, None) =
     Inr (example_batched_stepped, Some (1, 9 / 10, 999 / 1000)) \<and>
   last_bearing (p_grad example_batched)
     (group_entries example_backend (gens example_batched)
        (example_group, PNone, PNone, None :: real option)) = Some 1 \<and>
   calls example_batched_stepped =
     calls example_batched @ [AdamMT example_batched_lists (example_scalars 3)] \<and>
   step_of example_batched_stepped 1 = 3 \<and>
   step_of example_batched_stepped 0 = 6 \<and>
   use_multi_tensor (example_optimizer True False) \<and>
   last_bearing (p_grad (example_optimizer True False))
     (group_entries example_backend (gens (example_optimizer True False))
        (example_group, PNone, PNone, None :: real option)) = None \<and>
   group_body example_backend False 1 ANone (example_group, PNone, PNone, None)
     (example_optimizer True False, None) =
     Inl (UnboundLocalError, example_optimizer True False)"
proof -
  have a: "use_multi_tensor example_batched" "use_multi_tensor (example_optimizer True False)"
    by (simp_all add: example_batched_def example_optimizer_def)
  have b: "last_bearing (p_grad example_batched)
     (group_entries example_backend (gens example_batched)
        (example_group, PNone, PNone, None :: real option)) = Some 1"
    by (simp add: example_batched_entries last_bearing_def bearing_def example_batched_def)
  have c: "last_bearing (p_grad (example_optimizer True False))
     (group_entries example_backend (gens (example_optimizer True False))
        (example_group, PNone, PNone, None :: real option)) = None"
    by (simp add: example_batched_entries last_bearing_def bearing_def example_optimizer_def)
  have d: "calls example_batched_stepped =
     calls example_batched @ [AdamMT example_batched_lists (example_scalars 3)]"
    "step_of example_batched_stepped 1 = 3" "step_of example_batched_stepped 0 = 6"
    by (simp_all add: example_batched_stepped_def example_batched_def example_optimizer_def
          step_of_def)
  from a b c d example_batched_step example_unbound
    batched_step_value [where w = example_batched and K = example_backend and undo = False
      and scale = 1 and outs = ANone and grp = example_group and gtg = PNone and otg = PNone
      and gn = None and loc = None and w' = example_batched_stepped
      and loc' = "Some (1, 9 / 10, 999 / 1000)"]
    batched_step_value [where w = "example_optimizer True False" and K = example_backend
      and undo = False and scale = 1 and outs = ANone and grp = example_group and gtg = PNone
      and otg = PNone and gn = None and loc = None and w' = undefined and loc' = undefined]
  show ?thesis by simp
qed

section \<open>Sparse gradients\<close>











section \<open>The Input Normalizer\<close>

lemma example_flat_traverse:
  "traverse example_backend False (example_optimizer False False)
     (AList [PTensor (Tensor False 3), PNone], ANone, 1, None) =
   Inr (example_supplied_stepped, Some (0, 9 / 10, 999 / 1000))"
  by (simp add: example_eval example_supplied_stepped_def)

lemma example_twice_traverse:
  "traverse example_backend False example_twice (ANone, ANone, 1, None) =
   Inr (example_twice_stepped, Some (0, 9 / 10, 999 / 1000))"
  by (simp add: example_eval example_twice_def example_twice_stepped_def)

text \<open>
  The claim C7 as stated fails. For a group without parameters the flat description of
  its gradients is the empty list, on which \<open>_step\<close> raises \<open>IndexError\<close>, while the
  nested and the absent description are accepted. And a nested sequence whose inner
  sequence is a tuple is taken for a flat list (only a first element of type \<open>list\<close>
  makes the input nested): the tuple becomes the gradient of the first parameter and
  \<open>_step\<close> raises \<open>AttributeError\<close>, while the same gradients in an inner list are
  applied.
\<close>

theorem input_shapes_counterexample:
  "step_internal example_backend example_none (None :: (int, int, int) closure)
     (AList []) ANone 1 None False = Inl (IndexError, example_none) \<and>
   step_internal example_backend example_none (None :: (int, int, int) closure)
     (AList [PList []]) ANone 1 None False = Inr (None, example_none) \<and>
   step_internal example_backend example_none (None :: (int, int, int) closure)
     ANone ANone 1 None False = Inr (None, example_none) \<and>
   step_internal example_backend (example_optimizer False False) (None :: (int, int, int) closure)
     (AList [PTuple [PTensor (Tensor False 3), PNone]]) ANone 1 None False =
     Inl (AttributeError, example_optimizer False False) \<and>
   step_internal example_backend (example_optimizer False False) (None :: (int, int, int) closure)
     (AList [PList [PTensor (Tensor False 3), PNone]]) ANone 1 None False =
     Inr (None, example_supplied_stepped)"
proof -
  have a: "step_internal example_backend example_none (None :: (int, int, int) closure)
     (AList []) ANone 1 None False = Inl (IndexError, example_none)"
    by (simp add: example_eval example_none_def)
  have b: "step_internal example_backend example_none (None :: (int, int, int) closure)
     (AList [PList []]) ANone 1 None False = Inr (None, example_none)"
    by (simp add: example_eval example_none_def)
  have c: "step_internal example_backend example_none (None :: (int, int, int) closure)
     ANone ANone 1 None False = Inr (None, example_none)"
    by (simp add: example_eval example_none_def)
  have d: "step_internal example_backend (example_optimizer False False)
     (None :: (int, int, int) closure)
     (AList [PTuple [PTensor (Tensor False 3), PNone]]) ANone 1 None False =
     Inl (AttributeError, example_optimizer False False)"
    by (simp add: example_eval)
  have e: "step_internal example_backend (example_optimizer False False)
     (None :: (int, int, int) closure)
     (AList [PList [PTensor (Tensor False 3), PNone]]) ANone 1 None False =
     Inr (None, example_supplied_stepped)"
    by (simp add: example_eval example_supplied_stepped_def)
  from a b c d e show ?thesis by simp
qed

text \<open>
  Claim C7, amended. \<open>_step\<close> normalizes its input as follows. An absent input
  becomes one \<open>None\<close> per group, which the group loop replaces by a list of \<open>None\<close>
  sized to the parameter count of the group. A flat list (a non-empty list whose
  first element is not a Python list) becomes the one-group structure that holds it,
  as does the nested list with that list as its only inner list, and a generator
  becomes the one-group structure that holds the generator. A nested list whose first
  element is a list is its own structure, and a list in a group's slot is left as it
  is. The traversal is the group loop run on these structures, and the group loop sees
  a slot only after the replacement of \<open>None\<close>: inputs with the same per-group
  structure give the same traversal, in particular a flat list and the nested list
  that holds it, and the absent input and the nested list of all-\<open>None\<close> lists. The
  structure is what the parameter loop iterates: after a returning forward traversal
  of the absent input, every parameter with an attached gradient has been stepped
  once for each of its occurrences in the groups, and a flat list for a single group
  pairs its elements with the parameters of the group in order.
\<close>

theorem input_shapes_normalized:
  "normalize_input (length (param_groups (w :: ('p, 't) optimizer))) (ANone :: 't tensor pyarg) =
     Inr (replicate (length (param_groups w)) PNone) \<and>
   fill_none (grp :: 'p param_group) (PNone :: 't tensor pyobj) =
     PList (replicate (length (params grp)) PNone) \<and>
   (xs \<noteq> [] \<and> \<not> is_list (hd xs) \<longrightarrow>
      normalize_input n (AList (xs :: 't tensor pyobj list)) = Inr [PList xs] \<and>
      normalize_input n (AList [PList xs]) = Inr [PList xs] \<and>
      traverse K undo w (AList xs, outs, scale, gns) =
        traverse K undo w (AList [PList xs], outs, scale, gns)) \<and>
   normalize_input n (AGen i :: 't tensor pyarg) = Inr [PGen i] \<and>
   normalize_input n (AList (PList ys # rest :: 't tensor pyobj list)) = Inr (PList ys # rest) \<and>
   fill_none grp (PList ys) = PList ys \<and>
   traverse K undo w (grads, outs, scale, gns) =
     (case normalize_input (length (param_groups w)) grads of
        Inl err \<Rightarrow> Inl (err, w)
      | Inr grads_group \<Rightarrow>
          (case normalize_input (length (param_groups w)) outs of
             Inl err \<Rightarrow> Inl (err, w)
           | Inr output_params_group \<Rightarrow>
               groups_loop K undo scale outs
                 (zip (param_groups w)
                    (zip grads_group
                       (zip output_params_group
                          (normalize_norms (length (param_groups w)) gns))))
                 (w, None))) \<and>
   group_body K undo scale outs (grp, gtg, otg, gn) s =
     group_body K undo scale outs (grp, fill_none grp gtg, fill_none grp otg, gn) s \<and>
   (per_group_structure (param_groups w) grads1 = per_group_structure (param_groups w) grads2 \<longrightarrow>
      traverse K undo w (grads1, outs, scale, gns) = traverse K undo w (grads2, outs, scale, gns)) \<and>
   (param_groups w \<noteq> [] \<longrightarrow>
      traverse K undo w
        (AList (map (\<lambda>grp. PList (replicate (length (params grp)) PNone)) (param_groups w)),
         outs, scale, gns) =
      traverse K undo w (ANone, outs, scale, gns)) \<and>
   (traverse K False w (ANone, ANone, scale, None) = Inr (w', loc) \<longrightarrow>
      step_of w' q =
        step_of w q + (if p_grad w q = None then 0
                       else int (count_list (concat (map params (param_groups w))) q))) \<and>
   (param_groups w = [grp] \<and> xs \<noteq> [] \<and> \<not> is_list (hd xs) \<longrightarrow>
      traversal K w (AList xs, ANone, scale, None) =
        zip (params grp) (zip xs (replicate (length (params grp)) PNone)) \<and>
      (traverse K False w (AList xs, ANone, scale, None) = Inr (w', loc) \<longrightarrow>
         step_of w' q =
           step_of w q +
           int (visits (p_grad w) q
                  (zip (params grp)
                     (zip xs (replicate (length (params grp)) (PNone :: 't tensor pyobj)))))))"
proof (intro conjI impI; (elim conjE)?)
  show "normalize_input (length (param_groups w)) (ANone :: 't tensor pyarg) =
     Inr (replicate (length (param_groups w)) PNone)"
    by simp
  show "fill_none grp (PNone :: 't tensor pyobj) = PList (replicate (length (params grp)) PNone)"
    by (simp add: fill_none_def)
  show "normalize_input n (AGen i :: 't tensor pyarg) = Inr [PGen i]"
    by simp
  show "normalize_input n (AList (PList ys # rest)) = Inr (PList ys # rest)"
    by simp
  show "fill_none grp (PList ys) = PList ys"
    by simp
  show "traverse K undo w (grads, outs, scale, gns) =
     (case normalize_input (length (param_groups w)) grads of
        Inl err \<Rightarrow> Inl (err, w)
      | Inr grads_group \<Rightarrow>
          (case normalize_input (length (param_groups w)) outs of
             Inl err \<Rightarrow> Inl (err, w)
           | Inr output_params_group \<Rightarrow>
               groups_loop K undo scale outs
                 (zip (param_groups w)
                    (zip grads_group
                       (zip output_params_group
                          (normalize_norms (length (param_groups w)) gns))))
                 (w, None)))"
    by (simp add: traverse_def)
  show "group_body K undo scale outs (grp, gtg, otg, gn) s =
     group_body K undo scale outs (grp, fill_none grp gtg, fill_none grp otg, gn) s"
    by (rule group_body_filled)
next
  assume f: "xs \<noteq> []" "\<not> is_list (hd xs)"
  show a: "normalize_input n (AList xs) = Inr [PList xs]"
    and b: "normalize_input n (AList [PList xs]) = Inr [PList xs]"
    using f by (simp_all add: normalize_flat)
  from normalize_flat [OF f, of "length (param_groups w)"]
  show "traverse K undo w (AList xs, outs, scale, gns) =
        traverse K undo w (AList [PList xs], outs, scale, gns)"
    by (simp add: traverse_def)
next
  assume "per_group_structure (param_groups w) grads1 = per_group_structure (param_groups w) grads2"
  then show "traverse K undo w (grads1, outs, scale, gns) = traverse K undo w (grads2, outs, scale, gns)"
    by (rule traverse_structure)
next
  assume g: "param_groups w \<noteq> []"
  let ?ls = "map (\<lambda>grp. replicate (length (params grp)) (PNone :: 't tensor pyobj)) (param_groups w)"
  have "map (\<lambda>grp. PList (replicate (length (params grp)) PNone)) (param_groups w) = map PList ?ls"
    by simp
  moreover from g
  have "per_group_structure (param_groups w) (AList (map PList ?ls)) = Inr (map PList ?ls)"
    by (intro per_group_nested) simp_all
  ultimately have "per_group_structure (param_groups w)
        (AList (map (\<lambda>grp. PList (replicate (length (params grp)) PNone)) (param_groups w))) =
      per_group_structure (param_groups w) (ANone :: 't tensor pyarg)"
    by (simp add: per_group_absent comp_def)
  then show "traverse K undo w
        (AList (map (\<lambda>grp. PList (replicate (length (params grp)) PNone)) (param_groups w)),
         outs, scale, gns) =
      traverse K undo w (ANone, outs, scale, gns)"
    by (rule traverse_structure)
next
  assume "traverse K False w (ANone, ANone, scale, None) = Inr (w', loc)"
  then show "step_of w' q =
        step_of w q + (if p_grad w q = None then 0
                       else int (count_list (concat (map params (param_groups w))) q))"
    by (rule absent_step_of)
next
  assume h: "param_groups w = [grp]" "xs \<noteq> []" "\<not> is_list (hd xs)"
  show t: "traversal K w (AList xs, ANone, scale, None) =
        zip (params grp) (zip xs (replicate (length (params grp)) PNone))"
    using h by (rule flat_traversal)
  assume "traverse K False w (AList xs, ANone, scale, None) = Inr (w', loc)"
  from traverse_step_of [OF this, of q] t
  show "step_of w' q =
           step_of w q +
           int (visits (p_grad w) q
                  (zip (params grp)
                     (zip xs (replicate (length (params grp)) (PNone :: 't tensor pyobj)))))"
    by simp
qed

theorem input_shapes_normalized_witness:
  "[PTensor (Tensor False (3::int)), PNone] \<noteq> [] \<and>
   \<not> is_list (hd [PTensor (Tensor False (3::int)), PNone]) \<and>
   param_groups (example_optimizer False False) = [example_group] \<and>
   traverse example_backend False (example_optimizer False False)
     (AList [PTensor (Tensor False 3), PNone], ANone, 1, None) =
     Inr (example_supplied_stepped, Some (0, 9 / 10, 999 / 1000)) \<and>
   traverse example_backend False (example_optimizer False False)
     (AList [PList [PTensor (Tensor False 3), PNone]], ANone, 1, None) =
     Inr (example_supplied_stepped, Some (0, 9 / 10, 999 / 1000)) \<and>
   traversal example_backend (example_optimizer False False)
     (AList [PTensor (Tensor False 3), PNone], ANone, 1, None) =
     [(0, PTensor (Tensor False 3), PNone), (1, PNone, PNone)] \<and>
   step_of example_supplied_stepped 0 = 1 \<and>
   traverse example_backend False example_twice (ANone, ANone, 1, None) =
     Inr (example_twice_stepped, Some (0, 9 / 10, 999 / 1000)) \<and>
   p_grad example_twice 0 \<noteq> None \<and>
   step_of example_twice_stepped 0 =
     step_of example_twice 0 +
     int (count_list (concat (map params (param_groups example_twice))) 0)"
proof -
  let ?xs = "[PTensor (Tensor False (3::int)), PNone]"
  have a: "?xs \<noteq> []" "\<not> is_list (hd ?xs)"
    "param_groups (example_optimizer False False) = [example_group]"
    "p_grad example_twice 0 \<noteq> None"
    "p_grad (example_optimizer False False) 0 = None"
    "step_of (example_optimizer False False) 0 = 0"
    "params example_group = [0, 1]"
    by (simp_all add: example_optimizer_def example_twice_def example_group_def step_of_def)
  note th1 = input_shapes_normalized [where w = "example_optimizer False False"
      and K = example_backend and undo = False and xs = ?xs and outs = ANone and scale = 1
      and gns = None and grp = example_group and w' = example_supplied_stepped
      and loc = "Some (0, 9 / 10, 999 / 1000)" and q = 0 and n = 1 and i = 0 and ys = "[]"
      and rest = "[]" and grads = ANone and gtg = PNone and otg = PNone and gn = None
      and s = "(example_optimizer False False, None)" and ?grads1.0 = ANone
      and ?grads2.0 = ANone]
  note th2 = input_shapes_normalized [where w = example_twice
      and K = example_backend and undo = False and xs = ?xs and outs = ANone and scale = 1
      and gns = None and grp = example_group and w' = example_twice_stepped
      and loc = "Some (0, 9 / 10, 999 / 1000)" and q = 0 and n = 1 and i = 0 and ys = "[]"
      and rest = "[]" and grads = ANone and gtg = PNone and otg = PNone and gn = None
      and s = "(example_twice, None)" and ?grads1.0 = ANone and ?grads2.0 = ANone]
  from th1 a(1,2)
  have "traverse example_backend False (example_optimizer False False)
          (AList ?xs, ANone, 1, None) =
        traverse example_backend False (example_optimizer False False)
          (AList [PList ?xs], ANone, 1, None)"
    by blast
  with example_flat_traverse
  have b: "traverse example_backend False (example_optimizer False False)
     (AList [PList ?xs], ANone, 1, None) =
     Inr (example_supplied_stepped, Some (0, 9 / 10, 999 / 1000))"
    by simp
  from th1 a(1,2,3)
  have c: "traversal example_backend (example_optimizer False False) (AList ?xs, ANone, 1, None) =
     zip (params example_group) (zip ?xs (replicate (length (params example_group)) PNone))"
    by blast
  from th1 a(1,2,3) example_flat_traverse
  have d: "step_of example_supplied_stepped 0 =
     step_of (example_optimizer False False) 0 +
     int (visits (p_grad (example_optimizer False False)) 0
            (zip (params example_group)
               (zip ?xs (replicate (length (params example_group)) (PNone :: int tensor pyobj)))))"
    by blast
  from th2 example_twice_traverse
  have e: "step_of example_twice_stepped 0 =
     step_of example_twice 0 +
     (if p_grad example_twice 0 = None then 0
      else int (count_list (concat (map params (param_groups example_twice))) 0))"
    by blast
  from c have c': "traversal example_backend (example_optimizer False False)
     (AList ?xs, ANone, 1, None) = [(0, PTensor (Tensor False 3), PNone), (1, PNone, PNone)]"
    by (simp add: a(7) numeral_2_eq_2)
  from d have d': "step_of example_supplied_stepped 0 = 1"
    by (simp add: a(5,6,7) visits_def bearing_def numeral_2_eq_2)
  from e a(4) have e': "step_of example_twice_stepped 0 =
     step_of example_twice 0 +
     int (count_list (concat (map params (param_groups example_twice))) 0)"
    by simp
  from a(1,2,3,4) b c' d' e' example_flat_traverse example_twice_traverse
  show ?thesis by blast
qed

end
